theory Spec2Isabelle
  imports Main "HOL-Library.Word"
begin


section \<open>Battery History Format 2: a shallow embedding of the parser\<close>

text \<open>
  The Go package \<^verbatim>\<open>parseutils\<close> (file \<^verbatim>\<open>battery_history_format_v2.go\<close>) parses
  one line of Android's Battery History Format 2 and detects the format version of a
  document. Go strings are byte sequences: a \<^typ>\<open>string\<close> here is the list of the
  bytes of the Go string.
\<close>

subsection \<open>Regular expressions of Go's \<^verbatim>\<open>regexp\<close> package\<close>

text \<open>
  The four patterns of the source use literals, the Perl classes \<^verbatim>\<open>\d\<close>,
  \<^verbatim>\<open>\s\<close>, \<^verbatim>\<open>\w\<close>, bracket classes, the dot, the greedy repetitions
  \<^verbatim>\<open>+\<close> and \<^verbatim>\<open>*\<close>, the anchors and capturing groups without nesting.
  A pattern is the list of its items in the order they are written; a group is
  delimited by \<open>GOpen\<close> and \<open>GClose\<close>, and \<^verbatim>\<open>x{n}\<close> is written as
  \<open>n\<close> copies of \<open>One x\<close>.

  Go's classes are ASCII: \<^verbatim>\<open>\d\<close> is \<^verbatim>\<open>[0-9]\<close>, \<^verbatim>\<open>\w\<close> is
  \<^verbatim>\<open>[0-9A-Za-z_]\<close> and \<^verbatim>\<open>\s\<close> is \<^verbatim>\<open>[\t\n\f\r ]\<close>; the dot
  matches every character but the newline. A negated class or the dot matches each
  byte of a multi-byte UTF-8 character, so matching byte by byte consumes the same text.
\<close>

datatype citem = Ch char | Rng char char | PerlD | PerlS | PerlW

datatype atom = AnyChar | In "citem list" | NotIn "citem list"

datatype item = One atom | Many1 atom | Many0 atom | Bol | Eol | GOpen | GClose

definition inRange :: "char \<Rightarrow> char \<Rightarrow> char \<Rightarrow> bool" where
  "inRange lo hi c = ((of_char lo :: nat) \<le> of_char c \<and> (of_char c :: nat) \<le> of_char hi)"

fun cmatch :: "citem \<Rightarrow> char \<Rightarrow> bool" where
  "cmatch (Ch x) c = (c = x)"
| "cmatch (Rng lo hi) c = inRange lo hi c"
| "cmatch PerlD c = inRange (CHR ''0'') (CHR ''9'') c"
| "cmatch PerlS c = (c = CHR 0x09 \<or> c = CHR 0x0A \<or> c = CHR 0x0C \<or> c = CHR 0x0D \<or> c = CHR '' '')"
| "cmatch PerlW c = (inRange (CHR ''0'') (CHR ''9'') c \<or> inRange (CHR ''A'') (CHR ''Z'') c
     \<or> inRange (CHR ''a'') (CHR ''z'') c \<or> c = CHR ''_'')"

fun amatch :: "atom \<Rightarrow> char \<Rightarrow> bool" where
  "amatch AnyChar c = (c \<noteq> CHR 0x0A)"
| "amatch (In cs) c = list_ex (\<lambda>i. cmatch i c) cs"
| "amatch (NotIn cs) c = (\<not> list_ex (\<lambda>i. cmatch i c) cs)"

text \<open>
  \<open>rplus a k s\<close>: one or more characters of class \<open>a\<close> at the start of \<open>s\<close>, as
  many as possible first, then the rest of the pattern \<open>k\<close>; when the rest fails the
  repetition gives back one character at a time (leftmost-first matching).
\<close>

fun rplus :: "atom \<Rightarrow> (string \<Rightarrow> string list option) \<Rightarrow> string \<Rightarrow> (string \<times> string list) option" where
  "rplus a k [] = None"
| "rplus a k (c # cs) =
     (if amatch a c then
        (case rplus a k cs of
           Some (w, r) \<Rightarrow> Some (c # w, r)
         | None \<Rightarrow> (case k cs of Some r \<Rightarrow> Some ([c], r) | None \<Rightarrow> None))
      else None)"

text \<open>
  \<open>rmatch p b s\<close> matches the pattern \<open>p\<close> at the start of \<open>s\<close>; \<open>b\<close> says that
  \<open>s\<close> starts at the beginning of the text. The result has one piece of text per item
  of the pattern: the characters that item consumed.
\<close>

fun rmatch :: "item list \<Rightarrow> bool \<Rightarrow> string \<Rightarrow> string list option" where
  "rmatch [] b s = Some []"
| "rmatch (One a # p) b s =
     (case s of
        [] \<Rightarrow> None
      | c # cs \<Rightarrow> if amatch a c then map_option ((#) [c]) (rmatch p False cs) else None)"
| "rmatch (Many1 a # p) b s = map_option (\<lambda>(w, r). w # r) (rplus a (\<lambda>t. rmatch p False t) s)"
| "rmatch (Many0 a # p) b s =
     (case rplus a (\<lambda>t. rmatch p False t) s of
        Some (w, r) \<Rightarrow> Some (w # r)
      | None \<Rightarrow> map_option ((#) []) (rmatch p b s))"
| "rmatch (Bol # p) b s = (if b then map_option ((#) []) (rmatch p b s) else None)"
| "rmatch (Eol # p) b s = (if s = [] then map_option ((#) []) (rmatch p b s) else None)"
| "rmatch (GOpen # p) b s = map_option ((#) []) (rmatch p b s)"
| "rmatch (GClose # p) b s = map_option ((#) []) (rmatch p b s)"

text \<open>The text of each capturing group, in the order the groups close.\<close>

fun groups :: "item list \<Rightarrow> string list \<Rightarrow> string option \<Rightarrow> string list" where
  "groups (GOpen # p) (x # ps) cur = groups p ps (Some [])"
| "groups (GClose # p) (x # ps) (Some g) = g # groups p ps None"
| "groups (i # p) (x # ps) (Some g) = groups p ps (Some (g @ x))"
| "groups (i # p) (x # ps) None = groups p ps None"
| "groups p ps cur = []"

text \<open>A match as Go returns it: the whole match first, then the groups.\<close>

definition submatches :: "item list \<Rightarrow> string list \<Rightarrow> string list" where
  "submatches p ps = concat ps # groups p ps None"

text \<open>
  \<^verbatim>\<open>FindStringSubmatch\<close>: the leftmost match, \<open>None\<close> for Go's \<^verbatim>\<open>nil\<close>.
\<close>

fun rsearch :: "item list \<Rightarrow> bool \<Rightarrow> string \<Rightarrow> string list option" where
  "rsearch p b [] = map_option (submatches p) (rmatch p b [])"
| "rsearch p b (c # cs) =
     (case rmatch p b (c # cs) of
        Some ps \<Rightarrow> Some (submatches p ps)
      | None \<Rightarrow> rsearch p False cs)"

definition FindStringSubmatch :: "item list \<Rightarrow> string \<Rightarrow> string list option" where
  "FindStringSubmatch p s = rsearch p True s"

definition MatchString :: "item list \<Rightarrow> string \<Rightarrow> bool" where
  "MatchString p s = (rsearch p True s \<noteq> None)"

text \<open>
  \<^verbatim>\<open>FindAllStringSubmatch(s, -1)\<close>: the successive non-overlapping matches from left
  to right. \<open>scanAll p b k s\<close> walks the text; \<open>k\<close> counts the characters of \<open>s\<close>
  that still belong to the match found last. (Go drops an empty match that touches the
  match before it; none of the three patterns scanned here matches the empty text.)
\<close>

fun scanAll :: "item list \<Rightarrow> bool \<Rightarrow> nat \<Rightarrow> string \<Rightarrow> string list list" where
  "scanAll p b k [] =
     (if k = 0 then (case rmatch p b [] of Some ps \<Rightarrow> [submatches p ps] | None \<Rightarrow> []) else [])"
| "scanAll p b k (c # cs) =
     (if 0 < k then scanAll p False (k - 1) cs
      else (case rmatch p b (c # cs) of
              Some ps \<Rightarrow> submatches p ps # scanAll p False (length (concat ps) - 1) cs
            | None \<Rightarrow> scanAll p False 0 cs))"

definition FindAllStringSubmatch :: "item list \<Rightarrow> string \<Rightarrow> string list list" where
  "FindAllStringSubmatch p s = scanAll p True 0 s"

subsection \<open>The package's patterns\<close>

definition lit :: "char \<Rightarrow> item" where
  "lit c = One (In [Ch c])"

definition digit :: item where
  "digit = One (In [PerlD])"

text \<open>
  \<^verbatim>\<open>^(\d{2}-\d{2})\s+(\d{2}:\d{2}:\d{2}\.\d{3})\s+(\d+)\s+([0-9a-f]+)\s+(.*)$\<close>
\<close>

definition historyLinePatternV2 :: "item list" where
  "historyLinePatternV2 =
     [Bol,
      GOpen, digit, digit, lit (CHR ''-''), digit, digit, GClose,
      Many1 (In [PerlS]),
      GOpen, digit, digit, lit (CHR '':''), digit, digit, lit (CHR '':''), digit, digit,
             lit (CHR ''.''), digit, digit, digit, GClose,
      Many1 (In [PerlS]),
      GOpen, Many1 (In [PerlD]), GClose,
      Many1 (In [PerlS]),
      GOpen, Many1 (In [Rng (CHR ''0'') (CHR ''9''), Rng (CHR ''a'') (CHR ''f'')]), GClose,
      Many1 (In [PerlS]),
      GOpen, Many0 AnyChar, GClose,
      Eol]"

text \<open>\<^verbatim>\<open>(\w+)=([^,\s]+)\<close>\<close>

definition keyValuePattern :: "item list" where
  "keyValuePattern =
     [GOpen, Many1 (In [PerlW]), GClose, lit (CHR ''=''),
      GOpen, Many1 (NotIn [Ch (CHR '',''), PerlS]), GClose]"

text \<open>\<^verbatim>\<open>([+-])(\w+)\<close>\<close>

definition stateTransitionPattern :: "item list" where
  "stateTransitionPattern =
     [GOpen, One (In [Ch (CHR ''+''), Ch (CHR ''-'')]), GClose, GOpen, Many1 (In [PerlW]), GClose]"

text \<open>\<^verbatim>\<open>wake_reason=\d+:"([^"]+)"\<close> (the double quote is the byte \<open>0x22\<close>)\<close>

definition wakeReasonPattern :: "item list" where
  "wakeReasonPattern =
     map lit ''wake_reason='' @
     [Many1 (In [PerlD]), lit (CHR '':''), lit (CHR 0x22),
      GOpen, Many1 (NotIn [Ch (CHR 0x22)]), GClose, lit (CHR 0x22)]"

subsection \<open>Go's \<^verbatim>\<open>strings\<close>, \<^verbatim>\<open>strconv\<close>, \<^verbatim>\<open>fmt\<close> and \<^verbatim>\<open>time\<close>\<close>

text \<open>
  \<^verbatim>\<open>strings.Index\<close>: the byte offset of the first occurrence of \<open>sub\<close> in \<open>s\<close>,
  \<open>-1\<close> when there is none.
\<close>

fun indexFrom :: "nat \<Rightarrow> string \<Rightarrow> string \<Rightarrow> int" where
  "indexFrom i [] sub = (if sub = [] then int i else - 1)"
| "indexFrom i (c # cs) sub =
     (if take (length sub) (c # cs) = sub then int i else indexFrom (Suc i) cs sub)"

definition Index :: "string \<Rightarrow> string \<Rightarrow> int" where
  "Index s sub = indexFrom 0 s sub"

definition Contains :: "string \<Rightarrow> string \<Rightarrow> bool" where
  "Contains s sub = (0 \<le> Index s sub)"

definition HasPrefix :: "string \<Rightarrow> string \<Rightarrow> bool" where
  "HasPrefix s pre = (length pre \<le> length s \<and> take (length pre) s = pre)"

text \<open>\<^verbatim>\<open>strings.Split\<close> with a separator of one character (the source's is the newline).\<close>

fun Split :: "string \<Rightarrow> char \<Rightarrow> string list" where
  "Split [] sep = [[]]"
| "Split (c # cs) sep =
     (if c = sep then [] # Split cs sep
      else (case Split cs sep of [] \<Rightarrow> [[c]] | w # ws \<Rightarrow> (c # w) # ws))"

text \<open>\<^verbatim>\<open>strings.Join\<close>\<close>

fun Join :: "string list \<Rightarrow> string \<Rightarrow> string" where
  "Join [] sep = []"
| "Join [x] sep = x"
| "Join (x # y # ys) sep = x @ sep @ Join (y # ys) sep"

text \<open>
  \<^verbatim>\<open>strings.TrimSpace\<close> removes the leading and the trailing white space, as Unicode
  defines it (\<^verbatim>\<open>unicode.IsSpace\<close>): the six ASCII characters and the UTF-8 encodings
  of U+0085, U+00A0, U+1680, U+2000 to U+200A, U+2028, U+2029, U+202F, U+205F, U+3000.
\<close>

definition spaceRunes :: "string list" where
  "spaceRunes =
     [[CHR 0x09], [CHR 0x0A], [CHR 0x0B], [CHR 0x0C], [CHR 0x0D], [CHR 0x20],
      [CHR 0xC2, CHR 0x85], [CHR 0xC2, CHR 0xA0], [CHR 0xE1, CHR 0x9A, CHR 0x80],
      [CHR 0xE2, CHR 0x80, CHR 0x80], [CHR 0xE2, CHR 0x80, CHR 0x81],
      [CHR 0xE2, CHR 0x80, CHR 0x82], [CHR 0xE2, CHR 0x80, CHR 0x83],
      [CHR 0xE2, CHR 0x80, CHR 0x84], [CHR 0xE2, CHR 0x80, CHR 0x85],
      [CHR 0xE2, CHR 0x80, CHR 0x86], [CHR 0xE2, CHR 0x80, CHR 0x87],
      [CHR 0xE2, CHR 0x80, CHR 0x88], [CHR 0xE2, CHR 0x80, CHR 0x89],
      [CHR 0xE2, CHR 0x80, CHR 0x8A], [CHR 0xE2, CHR 0x80, CHR 0xA8],
      [CHR 0xE2, CHR 0x80, CHR 0xA9], [CHR 0xE2, CHR 0x80, CHR 0xAF],
      [CHR 0xE2, CHR 0x81, CHR 0x9F], [CHR 0xE3, CHR 0x80, CHR 0x80]]"

function trimPrefixes :: "string list \<Rightarrow> string \<Rightarrow> string" where
  "trimPrefixes ws s =
     (case find (\<lambda>w. w \<noteq> [] \<and> take (length w) s = w) ws of
        Some w \<Rightarrow> trimPrefixes ws (drop (length w) s)
      | None \<Rightarrow> s)"
  by pat_completeness auto
termination
proof (relation "measure (\<lambda>(ws, s). length s)")
  show "wf (measure (\<lambda>(ws, s). length s))" by simp
next
  fix ws :: "string list" and s w :: string
  assume "find (\<lambda>w. w \<noteq> [] \<and> take (length w) s = w) ws = Some w"
  then have w: "w \<noteq> []" "take (length w) s = w"
    by (auto simp: find_Some_iff)
  from w(2) have "length (take (length w) s) = length w"
    by simp
  then have "length w \<le> length s"
    by simp
  with w(1) show "((ws, drop (length w) s), (ws, s)) \<in> measure (\<lambda>(ws, s). length s)"
    by (cases w) auto
qed

definition TrimSpace :: "string \<Rightarrow> string" where
  "TrimSpace s = rev (trimPrefixes (map rev spaceRunes) (rev (trimPrefixes spaceRunes s)))"

text \<open>
  \<^verbatim>\<open>strconv.ParseInt(s, 10, bitSize)\<close>: an optional sign and decimal digits, within
  the range of a signed integer of \<open>bitSize\<close> bits. Both of Go's errors (syntax and
  range) are \<open>None\<close>: the callers only test \<^verbatim>\<open>err == nil\<close>.
\<close>

definition isDigit :: "char \<Rightarrow> bool" where
  "isDigit c = inRange (CHR ''0'') (CHR ''9'') c"

definition digitVal :: "char \<Rightarrow> nat" where
  "digitVal c = of_char c - 48"

fun decimal :: "nat \<Rightarrow> string \<Rightarrow> nat" where
  "decimal n [] = n"
| "decimal n (c # cs) = decimal (10 * n + digitVal c) cs"

definition ParseInt :: "string \<Rightarrow> nat \<Rightarrow> 64 word option" where
  "ParseInt s bitSize =
     (case s of
        [] \<Rightarrow> None
      | c # cs \<Rightarrow>
          let neg = (c = CHR ''-'');
              ds = (if c = CHR ''+'' \<or> c = CHR ''-'' then cs else s)
          in if ds = [] \<or> \<not> list_all isDigit ds then None
             else let un = decimal 0 ds; cutoff = 2 ^ (bitSize - 1)
                  in if \<not> neg \<and> cutoff \<le> un then None
                     else if neg \<and> cutoff < un then None
                     else Some (if neg then - word_of_nat un else word_of_nat un))"

text \<open>\<^verbatim>\<open>fmt.Sprintf("%d", n)\<close> for a signed integer.\<close>

definition digitChar :: "nat \<Rightarrow> char" where
  "digitChar d = ''0123456789'' ! d"

fun showNat :: "nat \<Rightarrow> string" where
  "showNat n = (if n < 10 then [digitChar n] else showNat (n div 10) @ [digitChar (n mod 10)])"

definition showInt :: "int \<Rightarrow> string" where
  "showInt i = (if i < 0 then CHR ''-'' # showNat (nat (- i)) else showNat (nat i))"

text \<open>
  A \<^verbatim>\<open>time.Time\<close> as its calendar fields: year, month, day, hour, minute, second,
  nanosecond. \<open>time_Parse\<close> is \<^verbatim>\<open>time.Parse("2006-01-02 15:04:05.000", v)\<close>: four
  digits of year, two of month, day, hour, minute and second, three of milliseconds,
  with the layout's separators, nothing after them, and each field in its range (the day
  within the month's length); \<open>None\<close> is Go's error.
\<close>

datatype Time = Date nat nat nat nat nat nat nat

fun getnum :: "string \<Rightarrow> (nat \<times> string) option" where
  "getnum (a # b # r) =
     (if isDigit a \<and> isDigit b then Some (10 * digitVal a + digitVal b, r) else None)"
| "getnum r = None"

fun skipChar :: "char \<Rightarrow> string \<Rightarrow> string option" where
  "skipChar c (x # r) = (if x = c then Some r else None)"
| "skipChar c [] = None"

definition isLeap :: "nat \<Rightarrow> bool" where
  "isLeap y = (y mod 4 = 0 \<and> (y mod 100 \<noteq> 0 \<or> y mod 400 = 0))"

definition daysIn :: "nat \<Rightarrow> nat \<Rightarrow> nat" where
  "daysIn m y =
     (if m = 2 then (if isLeap y then 29 else 28)
      else if m = 4 \<or> m = 6 \<or> m = 9 \<or> m = 11 then 30 else 31)"

definition time_Parse :: "string \<Rightarrow> Time option" where
  "time_Parse v =
     Option.bind (getnum v) (\<lambda>(yh, v).
     Option.bind (getnum v) (\<lambda>(yl, v).
     Option.bind (skipChar (CHR ''-'') v) (\<lambda>v.
     Option.bind (getnum v) (\<lambda>(month, v).
     if month = 0 \<or> 12 < month then None else
     Option.bind (skipChar (CHR ''-'') v) (\<lambda>v.
     Option.bind (getnum v) (\<lambda>(day, v).
     Option.bind (skipChar (CHR '' '') v) (\<lambda>v.
     Option.bind (getnum v) (\<lambda>(hour, v).
     if 24 \<le> hour then None else
     Option.bind (skipChar (CHR '':'') v) (\<lambda>v.
     Option.bind (getnum v) (\<lambda>(minute, v).
     if 60 \<le> minute then None else
     Option.bind (skipChar (CHR '':'') v) (\<lambda>v.
     Option.bind (getnum v) (\<lambda>(sec, v).
     if 60 \<le> sec then None else
     Option.bind (skipChar (CHR ''.'') v) (\<lambda>v.
     (case v of
        [f1, f2, f3] \<Rightarrow>
          if isDigit f1 \<and> isDigit f2 \<and> isDigit f3 then
            (let year = 100 * yh + yl in
             if day < 1 \<or> daysIn month year < day then None
             else Some (Date year month day hour minute sec (1000000 * decimal 0 [f1, f2, f3])))
          else None
      | _ \<Rightarrow> None))))))))))))))"

subsection \<open>The entry and the errors\<close>

text \<open>
  \<^verbatim>\<open>BatteryHistoryV2Entry\<close>. A Go map is a reference that may be \<^verbatim>\<open>nil\<close>:
  \<open>None\<close> is the nil map, \<open>Some m\<close> a map that was made. Reading a nil map is
  allowed, assigning to one panics.
\<close>

record BatteryHistoryV2Entry =
  Timestamp :: Time
  TimestampMs :: "64 word"
  BatteryPercent :: "32 word"
  Voltage :: "32 word"
  Temperature :: "32 word"
  ChargeMicroAh :: "64 word"
  Status :: string
  Health :: string
  PlugType :: string
  DataConn :: string
  PhoneSignalStrength :: string
  WiFiSignalStrength :: "32 word"
  WiFiSupplicantState :: string
  DeviceIdleMode :: string
  States :: "(string \<rightharpoonup> bool) option"
  WakeReasons :: "(string \<rightharpoonup> bool) option"
  RailCharges :: "(string \<rightharpoonup> 64 word) option"

text \<open>
  \<open>InvalidFormat\<close> is the error \<^verbatim>\<open>ParseHistoryV2Line\<close> returns; the other two are
  Go's run-time panics for an assignment to an entry of a nil map and for an index out
  of range.
\<close>

datatype error = InvalidFormat | NilMapAssignment | IndexOutOfRange

definition mapAssign :: "('k \<rightharpoonup> 'v) option \<Rightarrow> 'k \<Rightarrow> 'v \<Rightarrow> error + ('k \<rightharpoonup> 'v) option" where
  "mapAssign m k v = (case m of None \<Rightarrow> Inl NilMapAssignment | Some f \<Rightarrow> Inr (Some (f(k \<mapsto> v))))"

text \<open>A \<^verbatim>\<open>for ... range\<close> loop whose body may panic: the first panic ends it.\<close>

fun forEach :: "('s \<Rightarrow> 'a \<Rightarrow> error + 's) \<Rightarrow> 's \<Rightarrow> 'a list \<Rightarrow> error + 's" where
  "forEach body s [] = Inr s"
| "forEach body s (x # xs) =
     (case body s x of Inl e \<Rightarrow> Inl e | Inr s' \<Rightarrow> forEach body s' xs)"

subsection \<open>\<^verbatim>\<open>parseKeyValuePairsV2\<close>\<close>

text \<open>The body of the loop: the \<^verbatim>\<open>switch\<close> on the key, in the source's order.\<close>

definition keyValueStep :: "BatteryHistoryV2Entry \<Rightarrow> string list \<Rightarrow> error + BatteryHistoryV2Entry" where
  "keyValueStep entry match =
     (case match of
        [m0, key, val] \<Rightarrow>
          if key = ''charge'' then
            (case ParseInt val 64 of
               Some v \<Rightarrow> Inr (entry\<lparr>ChargeMicroAh := v\<rparr>) | None \<Rightarrow> Inr entry)
          else if key = ''volt'' then
            (case ParseInt val 32 of
               Some v \<Rightarrow> Inr (entry\<lparr>Voltage := ucast v\<rparr>) | None \<Rightarrow> Inr entry)
          else if key = ''temp'' then
            (case ParseInt val 32 of
               Some v \<Rightarrow> Inr (entry\<lparr>Temperature := ucast v\<rparr>) | None \<Rightarrow> Inr entry)
          else if key = ''status'' then Inr (entry\<lparr>Status := val\<rparr>)
          else if key = ''health'' then Inr (entry\<lparr>Health := val\<rparr>)
          else if key = ''plug'' then Inr (entry\<lparr>PlugType := val\<rparr>)
          else if key = ''data_conn'' then Inr (entry\<lparr>DataConn := val\<rparr>)
          else if key = ''phone_signal_strength'' then Inr (entry\<lparr>PhoneSignalStrength := val\<rparr>)
          else if key = ''wifi_signal_strength'' then
            (case ParseInt val 32 of
               Some v \<Rightarrow> Inr (entry\<lparr>WiFiSignalStrength := ucast v\<rparr>) | None \<Rightarrow> Inr entry)
          else if key = ''wifi_suppl'' then Inr (entry\<lparr>WiFiSupplicantState := val\<rparr>)
          else if key = ''device_idle'' then Inr (entry\<lparr>DeviceIdleMode := val\<rparr>)
          else if key = ''modemRailChargemAh'' \<or> key = ''wifiRailChargemAh'' then
            (case ParseInt val 64 of
               Some v \<Rightarrow>
                 (case mapAssign (RailCharges entry) key v of
                    Inl e \<Rightarrow> Inl e
                  | Inr m \<Rightarrow> Inr (entry\<lparr>RailCharges := m\<rparr>))
             | None \<Rightarrow> Inr entry)
          else Inr entry
      | _ \<Rightarrow> Inl IndexOutOfRange)"

definition parseKeyValuePairsV2 :: "BatteryHistoryV2Entry \<Rightarrow> string \<Rightarrow> error + BatteryHistoryV2Entry" where
  "parseKeyValuePairsV2 entry line =
     forEach keyValueStep entry (FindAllStringSubmatch keyValuePattern line)"

subsection \<open>\<^verbatim>\<open>parseStateTransitionsV2\<close>\<close>

text \<open>
  The body of the loop. \<open>idx\<close> is \<^verbatim>\<open>strings.Index(line, match[0])\<close>: the offset of
  the first place where the matched text occurs in the line.
\<close>

definition stateTransitionStep :: "string \<Rightarrow> BatteryHistoryV2Entry \<Rightarrow> string list \<Rightarrow> error + BatteryHistoryV2Entry" where
  "stateTransitionStep line entry match =
     (case match of
        [m0, transition, state] \<Rightarrow>
          if \<not> Contains m0 ''='' then
            (let isActive = (transition = ''+'');
                 idx = Index line m0
             in if 0 \<le> idx then
                  (let prevOk =
                         (if 0 < idx then
                            (let prevChar = line ! nat (idx - 1)
                             in prevChar = CHR '' '' \<or> prevChar = CHR ''+'' \<or> prevChar = CHR ''-'')
                          else True);
                       nextOk =
                         (if idx + int (length m0) < int (length line) then
                            (let nextChar = line ! nat (idx + int (length m0))
                             in nextChar = CHR '' '' \<or> nextChar = CHR ''+'' \<or> nextChar = CHR ''-''
                                \<or> nextChar = CHR '','')
                          else True)
                   in if prevOk \<and> nextOk then
                        (case mapAssign (States entry) state isActive of
                           Inl e \<Rightarrow> Inl e
                         | Inr m \<Rightarrow> Inr (entry\<lparr>States := m\<rparr>))
                      else Inr entry)
                else Inr entry)
          else Inr entry
      | _ \<Rightarrow> Inl IndexOutOfRange)"

definition parseStateTransitionsV2 :: "BatteryHistoryV2Entry \<Rightarrow> string \<Rightarrow> error + BatteryHistoryV2Entry" where
  "parseStateTransitionsV2 entry line =
     forEach (stateTransitionStep line) entry (FindAllStringSubmatch stateTransitionPattern line)"

subsection \<open>\<^verbatim>\<open>parseWakeReasonsV2\<close>\<close>

definition wakeReasonStep :: "BatteryHistoryV2Entry \<Rightarrow> string list \<Rightarrow> error + BatteryHistoryV2Entry" where
  "wakeReasonStep entry match =
     (case match of
        [m0, reason] \<Rightarrow>
          (case mapAssign (WakeReasons entry) reason True of
             Inl e \<Rightarrow> Inl e
           | Inr m \<Rightarrow> Inr (entry\<lparr>WakeReasons := m\<rparr>))
      | _ \<Rightarrow> Inl IndexOutOfRange)"

definition parseWakeReasonsV2 :: "BatteryHistoryV2Entry \<Rightarrow> string \<Rightarrow> error + BatteryHistoryV2Entry" where
  "parseWakeReasonsV2 entry line =
     forEach wakeReasonStep entry (FindAllStringSubmatch wakeReasonPattern line)"

subsection \<open>\<^verbatim>\<open>ParseHistoryV2Line\<close>\<close>

text \<open>
  The entry the composite literal builds: the three maps made, every other field at
  its zero value (the zero \<^verbatim>\<open>time.Time\<close> is January 1 of year 1).
\<close>

definition newEntry :: BatteryHistoryV2Entry where
  "newEntry =
     \<lparr>Timestamp = Date 1 1 1 0 0 0 0, TimestampMs = 0, BatteryPercent = 0, Voltage = 0,
      Temperature = 0, ChargeMicroAh = 0, Status = [], Health = [], PlugType = [],
      DataConn = [], PhoneSignalStrength = [], WiFiSignalStrength = 0,
      WiFiSupplicantState = [], DeviceIdleMode = [],
      States = Some Map.empty, WakeReasons = Some Map.empty, RailCharges = Some Map.empty\<rparr>"

definition andThen :: "error + 'a \<Rightarrow> ('a \<Rightarrow> error + 'b) \<Rightarrow> error + 'b" where
  "andThen r f = (case r of Inl e \<Rightarrow> Inl e | Inr x \<Rightarrow> f x)"

text \<open>
  \<open>now\<close> is what \<^verbatim>\<open>time.Now()\<close> returns during the call: the clock is an input of
  the function.
\<close>

definition ParseHistoryV2Line :: "Time \<Rightarrow> string \<Rightarrow> error + BatteryHistoryV2Entry" where
  "ParseHistoryV2Line now line =
     (case FindStringSubmatch historyLinePatternV2 (TrimSpace line) of
        None \<Rightarrow> Inl InvalidFormat
      | Some matches \<Rightarrow>
          (case matches of
             [m0, monthDay, timeStr, m3, m4, remainder] \<Rightarrow>
               (let timestampStr = ''2026-'' @ monthDay @ '' '' @ timeStr;
                    entry = (case time_Parse timestampStr of
                               None \<Rightarrow> newEntry\<lparr>Timestamp := now\<rparr>
                             | Some ts \<Rightarrow> newEntry\<lparr>Timestamp := ts\<rparr>)
                in andThen (parseStateTransitionsV2 entry remainder) (\<lambda>entry.
                   andThen (parseKeyValuePairsV2 entry remainder) (\<lambda>entry.
                   parseWakeReasonsV2 entry remainder)))
           | _ \<Rightarrow> Inl IndexOutOfRange))"

subsection \<open>\<^verbatim>\<open>ConvertToCSVEntry\<close>\<close>

text \<open>
  Modelled from the spec: the type \<^verbatim>\<open>csv.Entry\<close> is declared in the package
  \<^verbatim>\<open>csv\<close>, which is not among the sources; the record has the five fields the
  composite literal of \<^verbatim>\<open>ConvertToCSVEntry\<close> names (the spec's FlatRecord:
  description, category, start offset, value, source).
\<close>

record csv_Entry =
  Desc :: string
  Type :: string
  Start :: "64 word"
  Value :: string
  Identifier :: string

definition ConvertToCSVEntry :: "BatteryHistoryV2Entry \<Rightarrow> csv_Entry" where
  "ConvertToCSVEntry entry =
     (let values = [];
          values = (if Status entry \<noteq> [] then values @ [''status='' @ Status entry] else values);
          values = (if Health entry \<noteq> [] then values @ [''health='' @ Health entry] else values);
          values = (if 0 <s Voltage entry
                    then values @ [''volt='' @ showInt (sint (Voltage entry))] else values);
          values = (if 0 <s Temperature entry
                    then values @ [''temp='' @ showInt (sint (Temperature entry))] else values)
      in \<lparr>Desc = ''Battery state change'', Type = ''Battery State'',
          Start = TimestampMs entry, Value = Join values '','', Identifier = ''system''\<rparr>)"

subsection \<open>\<^verbatim>\<open>DetectHistoryFormatVersion\<close>\<close>

fun detectLines :: "string list \<Rightarrow> int" where
  "detectLines [] = 1"
| "detectLines (line # lines) =
     (if HasPrefix (TrimSpace line) ''9,h,'' then 1
      else if MatchString historyLinePatternV2 line then 2
      else detectLines lines)"

definition DetectHistoryFormatVersion :: "string \<Rightarrow> int" where
  "DetectHistoryFormatVersion historyText = detectLines (Split historyText (CHR 0x0A))"

section \<open>Definitions for the proofs\<close>

subsection \<open>Field writes\<close>

text \<open>
  What a pass does to an entry is a sequence of writes: a scalar field is set, or a key
  of one of the three maps is assigned. \<open>applyWrite\<close> is the write on an entry whose
  map was made (on a nil map it changes nothing), \<open>blocked\<close> says that the write is an
  assignment to a nil map, where Go panics. The passes are proved equal to \<open>runWrites\<close>
  of the writes their matches give (\<open>parseKeyValuePairsV2_writes\<close> and its siblings).
\<close>

datatype fwrite =
    SetChargeMicroAh "64 word" | SetVoltage "32 word" | SetTemperature "32 word"
  | SetStatus string | SetHealth string | SetPlugType string | SetDataConn string
  | SetPhoneSignalStrength string | SetWiFiSignalStrength "32 word"
  | SetWiFiSupplicantState string | SetDeviceIdleMode string
  | PutRailCharge string "64 word" | PutState string bool | PutWakeReason string

fun applyWrite :: "BatteryHistoryV2Entry \<Rightarrow> fwrite \<Rightarrow> BatteryHistoryV2Entry" where
  "applyWrite e (SetChargeMicroAh v) = e\<lparr>ChargeMicroAh := v\<rparr>"
| "applyWrite e (SetVoltage v) = e\<lparr>Voltage := v\<rparr>"
| "applyWrite e (SetTemperature v) = e\<lparr>Temperature := v\<rparr>"
| "applyWrite e (SetStatus v) = e\<lparr>Status := v\<rparr>"
| "applyWrite e (SetHealth v) = e\<lparr>Health := v\<rparr>"
| "applyWrite e (SetPlugType v) = e\<lparr>PlugType := v\<rparr>"
| "applyWrite e (SetDataConn v) = e\<lparr>DataConn := v\<rparr>"
| "applyWrite e (SetPhoneSignalStrength v) = e\<lparr>PhoneSignalStrength := v\<rparr>"
| "applyWrite e (SetWiFiSignalStrength v) = e\<lparr>WiFiSignalStrength := v\<rparr>"
| "applyWrite e (SetWiFiSupplicantState v) = e\<lparr>WiFiSupplicantState := v\<rparr>"
| "applyWrite e (SetDeviceIdleMode v) = e\<lparr>DeviceIdleMode := v\<rparr>"
| "applyWrite e (PutRailCharge k v) = e\<lparr>RailCharges := map_option (\<lambda>m. m(k \<mapsto> v)) (RailCharges e)\<rparr>"
| "applyWrite e (PutState k v) = e\<lparr>States := map_option (\<lambda>m. m(k \<mapsto> v)) (States e)\<rparr>"
| "applyWrite e (PutWakeReason k) = e\<lparr>WakeReasons := map_option (\<lambda>m. m(k \<mapsto> True)) (WakeReasons e)\<rparr>"

fun blocked :: "BatteryHistoryV2Entry \<Rightarrow> fwrite \<Rightarrow> bool" where
  "blocked e (PutRailCharge k v) = (RailCharges e = None)"
| "blocked e (PutState k v) = (States e = None)"
| "blocked e (PutWakeReason k) = (WakeReasons e = None)"
| "blocked e w = False"

definition doWrite :: "BatteryHistoryV2Entry \<Rightarrow> fwrite \<Rightarrow> error + BatteryHistoryV2Entry" where
  "doWrite e w = (if blocked e w then Inl NilMapAssignment else Inr (applyWrite e w))"

definition runWrites :: "BatteryHistoryV2Entry \<Rightarrow> fwrite list \<Rightarrow> error + BatteryHistoryV2Entry" where
  "runWrites e ws = (if list_ex (blocked e) ws then Inl NilMapAssignment else Inr (foldl applyWrite e ws))"

fun wpass :: "fwrite \<Rightarrow> nat" where
  "wpass (PutState k v) = 0"
| "wpass (PutWakeReason k) = 2"
| "wpass w = 1"

definition putKey :: "('k \<rightharpoonup> 'v) \<Rightarrow> 'k \<times> 'v \<Rightarrow> ('k \<rightharpoonup> 'v)" where
  "putKey m kv = m(fst kv \<mapsto> snd kv)"

subsection \<open>The writes of each pass\<close>

text \<open>
  \<open>keyValueWrite\<close> is the write of one match of the key/value pattern: the
  \<^verbatim>\<open>switch\<close> of \<open>keyValueStep\<close>, with no write where the number does not parse or
  the key is not a case. \<open>acceptedToggle\<close> is the test of \<open>stateTransitionStep\<close>,
  statement for statement: the state and its value when the match passes, \<open>None\<close> when
  it is dropped.
\<close>

definition keyValueWrite :: "string list \<Rightarrow> fwrite option" where
  "keyValueWrite match =
     (case match of
        [m0, key, val] \<Rightarrow>
          if key = ''charge'' then map_option SetChargeMicroAh (ParseInt val 64)
          else if key = ''volt'' then map_option (\<lambda>v. SetVoltage (ucast v)) (ParseInt val 32)
          else if key = ''temp'' then map_option (\<lambda>v. SetTemperature (ucast v)) (ParseInt val 32)
          else if key = ''status'' then Some (SetStatus val)
          else if key = ''health'' then Some (SetHealth val)
          else if key = ''plug'' then Some (SetPlugType val)
          else if key = ''data_conn'' then Some (SetDataConn val)
          else if key = ''phone_signal_strength'' then Some (SetPhoneSignalStrength val)
          else if key = ''wifi_signal_strength'' then
            map_option (\<lambda>v. SetWiFiSignalStrength (ucast v)) (ParseInt val 32)
          else if key = ''wifi_suppl'' then Some (SetWiFiSupplicantState val)
          else if key = ''device_idle'' then Some (SetDeviceIdleMode val)
          else if key = ''modemRailChargemAh'' \<or> key = ''wifiRailChargemAh'' then
            map_option (PutRailCharge key) (ParseInt val 64)
          else None
      | _ \<Rightarrow> None)"

definition keyValueWrites :: "string \<Rightarrow> fwrite list" where
  "keyValueWrites line = List.map_filter keyValueWrite (FindAllStringSubmatch keyValuePattern line)"

definition acceptedToggle :: "string \<Rightarrow> string list \<Rightarrow> (string \<times> bool) option" where
  "acceptedToggle line match =
     (case match of
        [m0, transition, state] \<Rightarrow>
          if \<not> Contains m0 ''='' then
            (let isActive = (transition = ''+'');
                 idx = Index line m0
             in if 0 \<le> idx then
                  (let prevOk =
                         (if 0 < idx then
                            (let prevChar = line ! nat (idx - 1)
                             in prevChar = CHR '' '' \<or> prevChar = CHR ''+'' \<or> prevChar = CHR ''-'')
                          else True);
                       nextOk =
                         (if idx + int (length m0) < int (length line) then
                            (let nextChar = line ! nat (idx + int (length m0))
                             in nextChar = CHR '' '' \<or> nextChar = CHR ''+'' \<or> nextChar = CHR ''-''
                                \<or> nextChar = CHR '','')
                          else True)
                   in if prevOk \<and> nextOk then Some (state, isActive) else None)
                else None)
          else None
      | _ \<Rightarrow> None)"

definition acceptedToggles :: "string \<Rightarrow> (string \<times> bool) list" where
  "acceptedToggles line =
     List.map_filter (acceptedToggle line) (FindAllStringSubmatch stateTransitionPattern line)"

definition wakeReasons :: "string \<Rightarrow> string list" where
  "wakeReasons line = map (\<lambda>m. m ! 1) (FindAllStringSubmatch wakeReasonPattern line)"

definition lineWrites :: "string \<Rightarrow> fwrite list" where
  "lineWrites remainder =
     map (\<lambda>(n, b). PutState n b) (acceptedToggles remainder) @ keyValueWrites remainder
     @ map PutWakeReason (wakeReasons remainder)"

definition lineTimestamp :: "Time \<Rightarrow> string list \<Rightarrow> Time" where
  "lineTimestamp now matches =
     (case time_Parse (''2026-'' @ matches ! 1 @ '' '' @ matches ! 2) of None \<Rightarrow> now | Some ts \<Rightarrow> ts)"

definition lineStamp :: "string \<Rightarrow> Time option" where
  "lineStamp line =
     (case FindStringSubmatch historyLinePatternV2 (TrimSpace line) of
        None \<Rightarrow> None
      | Some matches \<Rightarrow> time_Parse (''2026-'' @ matches ! 1 @ '' '' @ matches ! 2))"

definition runPasses ::
  "(BatteryHistoryV2Entry \<Rightarrow> string \<Rightarrow> error + BatteryHistoryV2Entry) list \<Rightarrow> string
     \<Rightarrow> BatteryHistoryV2Entry \<Rightarrow> error + BatteryHistoryV2Entry" where
  "runPasses passes remainder entry = forEach (\<lambda>e pass. pass e remainder) entry passes"

subsection \<open>The vocabulary and the value fragments\<close>

text \<open>
  From the spec's words (section 6): the identifiers with a numeric value and the width
  of each, and the closed set of recognized identifiers.
\<close>

definition numericKind :: "string \<Rightarrow> nat option" where
  "numericKind key =
     (if key = ''volt'' \<or> key = ''temp'' \<or> key = ''wifi_signal_strength'' then Some 32
      else if key = ''charge'' \<or> key = ''modemRailChargemAh'' \<or> key = ''wifiRailChargemAh'' then Some 64
      else None)"

definition recognized :: "string \<Rightarrow> bool" where
  "recognized key =
     (key \<in> set [''status'', ''health'', ''plug'', ''data_conn'', ''phone_signal_strength'',
        ''wifi_suppl'', ''device_idle'', ''volt'', ''temp'', ''wifi_signal_strength'', ''charge'',
        ''modemRailChargemAh'', ''wifiRailChargemAh''])"

text \<open>
  The fragments of the value string of \<open>ConvertToCSVEntry\<close>: \<open>nonZeroFragments\<close>
  follows the claim's words (a fragment for every non-empty or non-zero field),
  \<open>positiveFragments\<close> the guards of the code.
\<close>

definition nonZeroFragments :: "BatteryHistoryV2Entry \<Rightarrow> string list" where
  "nonZeroFragments entry =
     (if Status entry \<noteq> [] then [''status='' @ Status entry] else []) @
     (if Health entry \<noteq> [] then [''health='' @ Health entry] else []) @
     (if Voltage entry \<noteq> 0 then [''volt='' @ showInt (sint (Voltage entry))] else []) @
     (if Temperature entry \<noteq> 0 then [''temp='' @ showInt (sint (Temperature entry))] else [])"

definition positiveFragments :: "BatteryHistoryV2Entry \<Rightarrow> string list" where
  "positiveFragments entry =
     (if Status entry \<noteq> [] then [''status='' @ Status entry] else []) @
     (if Health entry \<noteq> [] then [''health='' @ Health entry] else []) @
     (if 0 < sint (Voltage entry) then [''volt='' @ showInt (sint (Voltage entry))] else []) @
     (if 0 < sint (Temperature entry) then [''temp='' @ showInt (sint (Temperature entry))] else [])"

subsection \<open>What a pattern accepts\<close>

text \<open>
  \<open>accepts p b s\<close>: some start of \<open>s\<close> is in the language of the pattern \<open>p\<close>,
  read item by item with no order among the alternatives. The matcher \<open>rmatch\<close>
  succeeds exactly there (\<open>rmatch_accepts\<close>). \<open>conforms\<close> says what text an item may
  have consumed, and \<open>ngroups\<close> counts the groups of a pattern.
\<close>

fun accepts :: "item list \<Rightarrow> bool \<Rightarrow> string \<Rightarrow> bool" where
  "accepts [] b s = True"
| "accepts (One a # p) b s = (\<exists>c cs. s = c # cs \<and> amatch a c \<and> accepts p False cs)"
| "accepts (Many1 a # p) b s =
     (\<exists>w r. s = w @ r \<and> w \<noteq> [] \<and> list_all (amatch a) w \<and> accepts p False r)"
| "accepts (Many0 a # p) b s =
     (\<exists>w r. s = w @ r \<and> list_all (amatch a) w \<and> accepts p (b \<and> w = []) r)"
| "accepts (Bol # p) b s = (b \<and> accepts p b s)"
| "accepts (Eol # p) b s = (s = [] \<and> accepts p b s)"
| "accepts (GOpen # p) b s = accepts p b s"
| "accepts (GClose # p) b s = accepts p b s"

fun conforms :: "item \<Rightarrow> string \<Rightarrow> bool" where
  "conforms (One a) x = (\<exists>c. x = [c] \<and> amatch a c)"
| "conforms (Many1 a) x = (x \<noteq> [] \<and> list_all (amatch a) x)"
| "conforms (Many0 a) x = list_all (amatch a) x"
| "conforms i x = (x = [])"

fun ngroups :: "item list \<Rightarrow> bool \<Rightarrow> nat" where
  "ngroups [] inside = 0"
| "ngroups (GOpen # p) inside = ngroups p True"
| "ngroups (GClose # p) inside = (if inside then Suc (ngroups p False) else ngroups p False)"
| "ngroups (i # p) inside = ngroups p inside"

text \<open>
  The Format-2 grammar of the spec (section 4.2), from its words: month-day, time of day
  with milliseconds, sequence number (decimal), state bitmask (hexadecimal; the digits the
  source's pattern takes are the lower-case ones) and the rest of the line, separated by
  runs of white space. The rest of the line has no newline in it. \<open>legacyLine\<close> is the
  test for the legacy marker.
\<close>

definition isSpaceChar :: "char \<Rightarrow> bool" where
  "isSpaceChar c = (c = CHR 0x09 \<or> c = CHR 0x0A \<or> c = CHR 0x0C \<or> c = CHR 0x0D \<or> c = CHR '' '')"

definition isHexChar :: "char \<Rightarrow> bool" where
  "isHexChar c = (inRange (CHR ''0'') (CHR ''9'') c \<or> inRange (CHR ''a'') (CHR ''f'') c)"

definition format2Line :: "string \<Rightarrow> bool" where
  "format2Line s =
     (\<exists>d1 d2 d3 d4 w1 h1 h2 m1 m2 s1 s2 f1 f2 f3 w2 sq w3 bm w4 rest.
        s = [d1, d2, CHR ''-'', d3, d4] @ w1
            @ [h1, h2, CHR '':'', m1, m2, CHR '':'', s1, s2, CHR ''.'', f1, f2, f3] @ w2
            @ sq @ w3 @ bm @ w4 @ rest
        \<and> list_all isDigit [d1, d2, d3, d4, h1, h2, m1, m2, s1, s2, f1, f2, f3]
        \<and> w1 \<noteq> [] \<and> list_all isSpaceChar w1
        \<and> w2 \<noteq> [] \<and> list_all isSpaceChar w2
        \<and> sq \<noteq> [] \<and> list_all isDigit sq
        \<and> w3 \<noteq> [] \<and> list_all isSpaceChar w3
        \<and> bm \<noteq> [] \<and> list_all isHexChar bm
        \<and> w4 \<noteq> [] \<and> list_all isSpaceChar w4
        \<and> CHR 0x0A \<notin> set rest)"

definition legacyLine :: "string \<Rightarrow> bool" where
  "legacyLine line = HasPrefix (TrimSpace line) ''9,h,''"

text \<open>
  The wake-reason tokens of a remainder, from the spec's words (section 4.3 (c)):
  \<^verbatim>\<open>wake_reason=\<close>, digits, a colon and a quoted text. \<open>wakeTokenAt s\<close> reads one
  token at the start of \<open>s\<close> and gives the text between the quotes and the length of the
  token; \<open>wakeScan\<close> reads the remainder from left to right, \<open>k\<close> counting the
  characters left of the token read last.
\<close>

definition notQuote :: "char \<Rightarrow> bool" where
  "notQuote c = (c \<noteq> CHR 0x22)"

definition wakeTokenAt :: "string \<Rightarrow> (string \<times> nat) option" where
  "wakeTokenAt s =
     (if take 12 s = ''wake_reason='' then
        (let r = drop 12 s; ds = takeWhile isDigit r; r1 = dropWhile isDigit r in
         if ds \<noteq> [] \<and> take 2 r1 = [CHR '':'', CHR 0x22] then
           (let r2 = drop 2 r1; quoted = takeWhile notQuote r2; r3 = dropWhile notQuote r2 in
            if quoted \<noteq> [] \<and> r3 \<noteq> [] then Some (quoted, 12 + length ds + 2 + length quoted + 1)
            else None)
         else None)
      else None)"

fun wakeScan :: "nat \<Rightarrow> string \<Rightarrow> string list" where
  "wakeScan k [] = []"
| "wakeScan k (c # cs) =
     (if 0 < k then wakeScan (k - 1) cs
      else (case wakeTokenAt (c # cs) of
              Some (quoted, n) \<Rightarrow> quoted # wakeScan (n - 1) cs
            | None \<Rightarrow> wakeScan 0 cs))"

definition wakeTokens :: "string \<Rightarrow> string list" where
  "wakeTokens s = wakeScan 0 s"

subsection \<open>Toggles by position\<close>

text \<open>
  \<open>matchesAt\<close> is \<open>scanAll\<close> with the offset of each match beside it: the second
  components are the matches of \<open>scanAll\<close> (\<open>matchesAt_scanAll\<close>), and the matched text
  stands at that offset of the text (\<open>matchesAt_position\<close>).
\<close>

fun matchesAt :: "item list \<Rightarrow> bool \<Rightarrow> nat \<Rightarrow> nat \<Rightarrow> string \<Rightarrow> (nat \<times> string list) list" where
  "matchesAt p b k i [] =
     (if k = 0 then (case rmatch p b [] of Some ps \<Rightarrow> [(i, submatches p ps)] | None \<Rightarrow> []) else [])"
| "matchesAt p b k i (c # cs) =
     (if 0 < k then matchesAt p False (k - 1) (Suc i) cs
      else (case rmatch p b (c # cs) of
              Some ps \<Rightarrow> (i, submatches p ps) # matchesAt p False (length (concat ps) - 1) (Suc i) cs
            | None \<Rightarrow> matchesAt p False 0 (Suc i) cs))"

text \<open>
  The accepted toggles of a remainder, from the spec's words (section 4.3 (b)): a match
  of the toggle pattern is accepted when (i) the matched text has no \<^verbatim>\<open>=\<close> in it,
  (ii) the character before the match, if any, is a space, \<^verbatim>\<open>+\<close> or \<^verbatim>\<open>-\<close>, and
  (iii) the character after the match, if any, is a space, \<^verbatim>\<open>+\<close>, \<^verbatim>\<open>-\<close> or a
  comma. The characters are those around the match itself, at its offset \<open>i\<close>.
\<close>

definition delimiterBefore :: "char \<Rightarrow> bool" where
  "delimiterBefore c = (c = CHR '' '' \<or> c = CHR ''+'' \<or> c = CHR ''-'')"

definition delimiterAfter :: "char \<Rightarrow> bool" where
  "delimiterAfter c = (c = CHR '' '' \<or> c = CHR ''+'' \<or> c = CHR ''-'' \<or> c = CHR '','')"

definition boundedToggle :: "string \<Rightarrow> nat \<times> string list \<Rightarrow> (string \<times> bool) option" where
  "boundedToggle line im =
     (case im of
        (i, [m0, transition, state]) \<Rightarrow>
          if CHR ''='' \<notin> set m0
             \<and> (if 0 < i then delimiterBefore (line ! (i - 1)) else True)
             \<and> (if i + length m0 < length line then delimiterAfter (line ! (i + length m0)) else True)
          then Some (state, transition = ''+'')
          else None
      | _ \<Rightarrow> None)"

definition boundedToggles :: "string \<Rightarrow> (string \<times> bool) list" where
  "boundedToggles line =
     List.map_filter (boundedToggle line) (matchesAt stateTransitionPattern True 0 0 line)"

section \<open>Lemmas\<close>

subsection \<open>Writes\<close>

lemma blocked_applyWrite [simp]: "blocked (applyWrite e w) w' = blocked e w'"
  by (cases w; cases w'; simp)

lemma blocked_foldl [simp]: "blocked (foldl applyWrite e ws) w = blocked e w"
  by (induction ws arbitrary: e) simp_all

lemma forEach_doWrite: "forEach doWrite e ws = runWrites e ws"
proof (induction ws arbitrary: e)
  case Nil
  show ?case by (simp add: runWrites_def)
next
  case (Cons w ws)
  show ?case
  proof (cases "blocked e w")
    case True
    then show ?thesis by (simp add: doWrite_def runWrites_def)
  next
    case False
    have "list_ex (blocked (applyWrite e w)) ws = list_ex (blocked e) ws"
      by (simp add: list_ex_iff)
    with False Cons show ?thesis
      by (simp add: doWrite_def runWrites_def)
  qed
qed

lemma applyWrite_absorb: "applyWrite (applyWrite (applyWrite e x) y) x = applyWrite (applyWrite e y) x"
  by (cases x; cases y; cases "States e"; cases "WakeReasons e"; cases "RailCharges e"; simp add: fun_upd_twist)

subsection \<open>The shape of a match\<close>

lemma rplus_SomeD:
  "rplus a k s = Some (w, r) \<Longrightarrow> \<exists>t. s = w @ t \<and> w \<noteq> [] \<and> list_all (amatch a) w \<and> k t = Some r"
proof (induction s arbitrary: w r)
  case Nil
  then show ?case by simp
next
  case (Cons c cs)
  show ?case
  proof (cases "rplus a k cs")
    case None
    with Cons.prems show ?thesis
      by (auto split: if_splits option.splits)
  next
    case (Some wr)
    obtain w' r' where wr: "wr = (w', r')" by (cases wr)
    from Cons.IH [of w' r'] Some wr obtain t where
      "cs = w' @ t" "w' \<noteq> []" "list_all (amatch a) w'" "k t = Some r'"
      by auto
    with Cons.prems Some wr show ?thesis
      by (auto split: if_splits)
  qed
qed

lemma rmatch_length: "rmatch p b s = Some ps \<Longrightarrow> length ps = length p"
proof (induction p b s arbitrary: ps rule: rmatch.induct)
  case (3 a p b s)
  from "3.prems" obtain w r where wr: "rplus a (\<lambda>t. rmatch p False t) s = Some (w, r)" "ps = w # r"
    by auto
  from rplus_SomeD [OF wr(1)] obtain t where "rmatch p False t = Some r" by auto
  with "3.IH" wr show ?case by simp
next
  case (4 a p b s)
  show ?case
  proof (cases "rplus a (\<lambda>t. rmatch p False t) s")
    case None
    with "4.prems" "4.IH"(2) show ?thesis by auto
  next
    case (Some wr)
    obtain w r where wr: "wr = (w, r)" by (cases wr)
    from rplus_SomeD Some wr obtain t where "rmatch p False t = Some r" by blast
    with "4.IH"(1) have "length r = length p" by blast
    moreover from "4.prems" Some wr have "ps = w # r" by simp
    ultimately show ?thesis by simp
  qed
qed (auto split: list.splits if_splits)

lemma scanAll_mem:
  "m \<in> set (scanAll p b k s) \<Longrightarrow> \<exists>b' s' ps. rmatch p b' s' = Some ps \<and> m = submatches p ps"
proof (induction s arbitrary: b k)
  case Nil
  then show ?case
    by (cases "rmatch p b []"; cases "k = 0") auto
next
  case (Cons c cs)
  show ?case
  proof (cases "0 < k")
    case True
    with Cons.prems have "m \<in> set (scanAll p False (k - 1) cs)" by simp
    then show ?thesis by (rule Cons.IH)
  next
    case False
    show ?thesis
    proof (cases "rmatch p b (c # cs)")
      case None
      with False Cons.prems have "m \<in> set (scanAll p False 0 cs)" by simp
      then show ?thesis by (rule Cons.IH)
    next
      case (Some ps)
      with False Cons.prems have "m = submatches p ps \<or> m \<in> set (scanAll p False (length (concat ps) - 1) cs)"
        by simp
      then show ?thesis
      proof
        assume "m = submatches p ps"
        with Some show ?thesis by blast
      next
        assume "m \<in> set (scanAll p False (length (concat ps) - 1) cs)"
        then show ?thesis by (rule Cons.IH)
      qed
    qed
  qed
qed

lemma list7: "length ps = 7 \<Longrightarrow> \<exists>a b c d e f g. ps = [a, b, c, d, e, f, g]"
  by (simp add: length_Suc_conv eval_nat_numeral) blast

lemma list6: "length ps = 6 \<Longrightarrow> \<exists>a b c d e f. ps = [a, b, c, d, e, f]"
  by (simp add: length_Suc_conv eval_nat_numeral) blast

lemma keyValue_match_shape:
  assumes "m \<in> set (FindAllStringSubmatch keyValuePattern line)"
  shows "\<exists>m0 key val. m = [m0, key, val]"
proof -
  from assms scanAll_mem obtain b s ps where
    ps: "rmatch keyValuePattern b s = Some ps" "m = submatches keyValuePattern ps"
    unfolding FindAllStringSubmatch_def by blast
  from rmatch_length [OF ps(1)] have "length ps = 7"
    by (simp add: keyValuePattern_def)
  then obtain x1 x2 x3 x4 x5 x6 x7 where "ps = [x1, x2, x3, x4, x5, x6, x7]"
    using list7 by blast
  with ps(2) show ?thesis
    by (simp add: submatches_def keyValuePattern_def lit_def)
qed

lemma stateTransition_match_shape:
  assumes "m \<in> set (FindAllStringSubmatch stateTransitionPattern line)"
  shows "\<exists>m0 transition state. m = [m0, transition, state]"
proof -
  from assms scanAll_mem obtain b s ps where
    ps: "rmatch stateTransitionPattern b s = Some ps" "m = submatches stateTransitionPattern ps"
    unfolding FindAllStringSubmatch_def by blast
  from rmatch_length [OF ps(1)] have "length ps = 6"
    by (simp add: stateTransitionPattern_def)
  then obtain x1 x2 x3 x4 x5 x6 where "ps = [x1, x2, x3, x4, x5, x6]"
    using list6 by blast
  with ps(2) show ?thesis
    by (simp add: submatches_def stateTransitionPattern_def)
qed

subsection \<open>The passes as lists of writes\<close>

lemma keyValueStep_write:
  "keyValueStep e [m0, key, val] =
     (case keyValueWrite [m0, key, val] of None \<Rightarrow> Inr e | Some w \<Rightarrow> doWrite e w)"
  by (auto simp: keyValueStep_def keyValueWrite_def doWrite_def mapAssign_def
      split: option.splits)

lemma mapAssign_States:
  "(case mapAssign (States e) n b of Inl err \<Rightarrow> Inl err | Inr m \<Rightarrow> Inr (e\<lparr>States := m\<rparr>)) =
     doWrite e (PutState n b)"
  by (cases "States e") (simp_all add: mapAssign_def doWrite_def)

lemma case_option_if:
  "(case (if c then x else y) of None \<Rightarrow> a | Some z \<Rightarrow> f z) =
     (if c then (case x of None \<Rightarrow> a | Some z \<Rightarrow> f z) else (case y of None \<Rightarrow> a | Some z \<Rightarrow> f z))"
  by simp

lemma stateTransitionStep_write:
  "stateTransitionStep line e [m0, transition, state] =
     (case acceptedToggle line [m0, transition, state] of
        None \<Rightarrow> Inr e | Some (n, b) \<Rightarrow> doWrite e (PutState n b))"
  unfolding stateTransitionStep_def acceptedToggle_def Let_def mapAssign_States
  by (simp only: list.case case_option_if option.case prod.case)

lemma wakeReasonStep_write:
  "wakeReasonStep e [m0, reason] = doWrite e (PutWakeReason reason)"
  by (simp add: wakeReasonStep_def doWrite_def mapAssign_def split: option.splits)

lemma map_filter_map_option:
  "List.map_filter (\<lambda>m. map_option f (g m)) xs = map f (List.map_filter g xs)"
  by (induction xs) (auto simp: map_filter_simps split: option.splits)

lemma forEach_writes:
  assumes "\<And>e m. m \<in> set ms \<Longrightarrow> body e m = (case wr m of None \<Rightarrow> Inr e | Some w \<Rightarrow> doWrite e w)"
  shows "forEach body e ms = runWrites e (List.map_filter wr ms)"
proof -
  from assms have "forEach body e ms = forEach doWrite e (List.map_filter wr ms)"
  proof (induction ms arbitrary: e)
    case Nil
    show ?case by (simp add: map_filter_simps)
  next
    case (Cons m ms)
    have step: "body e m = (case wr m of None \<Rightarrow> Inr e | Some w \<Rightarrow> doWrite e w)"
      by (rule Cons.prems) simp
    have rest: "forEach body e' ms = forEach doWrite e' (List.map_filter wr ms)" for e'
      by (rule Cons.IH) (simp add: Cons.prems)
    show ?case
      by (cases "wr m") (simp_all add: step rest map_filter_simps split: sum.splits)
  qed
  then show ?thesis by (simp add: forEach_doWrite)
qed

lemma parseKeyValuePairsV2_writes:
  "parseKeyValuePairsV2 e line = runWrites e (keyValueWrites line)"
  unfolding parseKeyValuePairsV2_def keyValueWrites_def
proof (rule forEach_writes)
  fix e' m
  assume "m \<in> set (FindAllStringSubmatch keyValuePattern line)"
  then obtain m0 key val where "m = [m0, key, val]"
    using keyValue_match_shape by blast
  then show "keyValueStep e' m = (case keyValueWrite m of None \<Rightarrow> Inr e' | Some w \<Rightarrow> doWrite e' w)"
    by (simp only: keyValueStep_write)
qed

lemma parseStateTransitionsV2_writes:
  "parseStateTransitionsV2 e line = runWrites e (map (\<lambda>(n, b). PutState n b) (acceptedToggles line))"
proof -
  have "parseStateTransitionsV2 e line =
        runWrites e (List.map_filter (\<lambda>m. map_option (\<lambda>(n, b). PutState n b) (acceptedToggle line m))
          (FindAllStringSubmatch stateTransitionPattern line))"
    unfolding parseStateTransitionsV2_def
  proof (rule forEach_writes)
    fix e' m
    assume "m \<in> set (FindAllStringSubmatch stateTransitionPattern line)"
    then obtain m0 t st where "m = [m0, t, st]"
      using stateTransition_match_shape by blast
    then show "stateTransitionStep line e' m =
        (case map_option (\<lambda>(n, b). PutState n b) (acceptedToggle line m) of
           None \<Rightarrow> Inr e' | Some w \<Rightarrow> doWrite e' w)"
      by (cases "acceptedToggle line [m0, t, st]") (auto simp: stateTransitionStep_write)
  qed
  also have "List.map_filter (\<lambda>m. map_option (\<lambda>(n, b). PutState n b) (acceptedToggle line m))
          (FindAllStringSubmatch stateTransitionPattern line) =
        map (\<lambda>(n, b). PutState n b) (acceptedToggles line)"
    unfolding acceptedToggles_def by (rule map_filter_map_option)
  finally show ?thesis .
qed

lemma list19:
  "length ps = 19 \<Longrightarrow> \<exists>x1 x2 x3 x4 x5 x6 x7 x8 x9 x10 x11 x12 x13 x14 x15 x16 x17 x18 x19.
     ps = [x1, x2, x3, x4, x5, x6, x7, x8, x9, x10, x11, x12, x13, x14, x15, x16, x17, x18, x19]"
  by (simp add: length_Suc_conv eval_nat_numeral) blast

lemma wakeReason_match_shape:
  assumes "m \<in> set (FindAllStringSubmatch wakeReasonPattern line)"
  shows "\<exists>m0 reason. m = [m0, reason]"
proof -
  from assms scanAll_mem obtain b s ps where
    ps: "rmatch wakeReasonPattern b s = Some ps" "m = submatches wakeReasonPattern ps"
    unfolding FindAllStringSubmatch_def by blast
  from rmatch_length [OF ps(1)] have "length ps = 19"
    by (simp add: wakeReasonPattern_def)
  from list19 [OF this] show ?thesis
    unfolding ps(2) by (auto simp: submatches_def wakeReasonPattern_def lit_def)
qed

lemma parseWakeReasonsV2_writes:
  "parseWakeReasonsV2 e line = runWrites e (map PutWakeReason (wakeReasons line))"
proof -
  have "parseWakeReasonsV2 e line =
        runWrites e (List.map_filter (\<lambda>m. map_option PutWakeReason (Some (m ! 1)))
          (FindAllStringSubmatch wakeReasonPattern line))"
    unfolding parseWakeReasonsV2_def
  proof (rule forEach_writes)
    fix e' m
    assume "m \<in> set (FindAllStringSubmatch wakeReasonPattern line)"
    then obtain m0 reason where "m = [m0, reason]"
      using wakeReason_match_shape by blast
    then show "wakeReasonStep e' m =
        (case map_option PutWakeReason (Some (m ! 1)) of None \<Rightarrow> Inr e' | Some w \<Rightarrow> doWrite e' w)"
      by (simp add: wakeReasonStep_write)
  qed
  also have "List.map_filter (\<lambda>m. map_option PutWakeReason (Some (m ! 1)))
          (FindAllStringSubmatch wakeReasonPattern line) = map PutWakeReason (wakeReasons line)"
    unfolding wakeReasons_def
    by (simp only: map_filter_map_option) (simp add: List.map_filter_def)
  finally show ?thesis .
qed

subsection \<open>Reordering and replaying writes\<close>

lemma runWrites_append:
  "andThen (runWrites e ws1) (\<lambda>e'. runWrites e' ws2) = runWrites e (ws1 @ ws2)"
  by (auto simp: andThen_def runWrites_def list_ex_iff)

lemma foldl_absorb_one:
  assumes absorb: "\<And>e x y. f (f (f e x) y) x = f (f e y) x"
    and idem: "\<And>e x. f (f e x) x = f e x"
  shows "f (foldl f (f e x) ws) x = f (foldl f e ws) x"
proof (induction ws rule: rev_induct)
  case Nil
  show ?case by (simp add: idem)
next
  case (snoc y ws)
  have "f (foldl f (f e x) (ws @ [y])) x = f (f (foldl f (f e x) ws) y) x"
    by simp
  also have "\<dots> = f (f (f (foldl f (f e x) ws) x) y) x"
    by (simp only: absorb)
  also have "\<dots> = f (f (f (foldl f e ws) x) y) x"
    by (simp only: snoc.IH)
  also have "\<dots> = f (f (foldl f e ws) y) x"
    by (simp only: absorb)
  finally show ?case by simp
qed

lemma foldl_idem:
  assumes absorb: "\<And>e x y. f (f (f e x) y) x = f (f e y) x"
    and idem: "\<And>e x. f (f e x) x = f e x"
  shows "foldl f (foldl f e ws) ws = foldl f e ws"
proof (induction ws rule: rev_induct)
  case Nil
  show ?case by simp
next
  case (snoc x ws)
  have "foldl f (foldl f e (ws @ [x])) (ws @ [x]) = f (foldl f (f (foldl f e ws) x) ws) x"
    by simp
  also have "\<dots> = f (foldl f (foldl f e ws) ws) x"
    by (rule foldl_absorb_one [OF absorb idem])
  also have "\<dots> = f (foldl f e ws) x"
    by (simp only: snoc.IH)
  finally show ?case by simp
qed

lemma foldl_commute_one:
  assumes "\<And>e y. y \<in> set ys \<Longrightarrow> f (f e x) y = f (f e y) x"
  shows "foldl f (f e x) ys = f (foldl f e ys) x"
  using assms by (induction ys arbitrary: e) simp_all

lemma foldl_commute:
  assumes "\<And>e x y. x \<in> set xs \<Longrightarrow> y \<in> set ys \<Longrightarrow> f (f e x) y = f (f e y) x"
  shows "foldl f e (xs @ ys) = foldl f e (ys @ xs)"
  using assms
proof (induction xs arbitrary: e)
  case Nil
  show ?case by simp
next
  case (Cons x xs)
  have "foldl f e ((x # xs) @ ys) = foldl f (f e x) (xs @ ys)" by simp
  also have "\<dots> = foldl f (f e x) (ys @ xs)"
    by (rule Cons.IH) (rule Cons.prems, simp_all)
  also have "\<dots> = foldl f (foldl f (f e x) ys) xs" by simp
  also have "foldl f (f e x) ys = f (foldl f e ys) x"
    by (rule foldl_commute_one) (rule Cons.prems, simp_all)
  finally show ?case by simp
qed

lemma applyWrite_idem: "applyWrite (applyWrite e x) x = applyWrite e x"
  by (cases x; cases "States e"; cases "WakeReasons e"; cases "RailCharges e"; simp)

lemma applyWrite_commute:
  "wpass x \<noteq> wpass y \<Longrightarrow> applyWrite (applyWrite e x) y = applyWrite (applyWrite e y) x"
  by (cases x; cases y; simp)

lemma keyValueWrite_cases:
  assumes "keyValueWrite m = Some w"
  obtains m0 key val where "m = [m0, key, val]"
  using assms unfolding keyValueWrite_def
  by (cases m rule: list.exhaust; simp split: list.splits)

lemma wpass_keyWrite: "\<forall>w. keyValueWrite [m0, key, val] = Some w \<longrightarrow> wpass w = 1"
  unfolding keyValueWrite_def by (simp add: map_option_case split: option.split)

lemma wpass_keyValueWrite:
  assumes "keyValueWrite m = Some w"
  shows "wpass w = 1"
proof -
  from assms obtain m0 key val where m: "m = [m0, key, val]"
    by (rule keyValueWrite_cases)
  from assms wpass_keyWrite show ?thesis
    unfolding m by blast
qed

lemma in_set_map_filter:
  "y \<in> set (List.map_filter f xs) \<longleftrightarrow> (\<exists>x\<in>set xs. f x = Some y)"
  by (induction xs) (auto split: option.splits)

lemma wpass_keyValueWrites: "w \<in> set (keyValueWrites line) \<Longrightarrow> wpass w = 1"
  by (auto simp: keyValueWrites_def in_set_map_filter wpass_keyValueWrite)

lemma wpass_stateWrites: "w \<in> set (map (\<lambda>(n, b). PutState n b) ts) \<Longrightarrow> wpass w = 0"
  by auto

lemma wpass_wakeWrites: "w \<in> set (map PutWakeReason rs) \<Longrightarrow> wpass w = 2"
  by auto

lemma runWrites_swap:
  assumes "\<And>x y. x \<in> set xs \<Longrightarrow> y \<in> set ys \<Longrightarrow> wpass x \<noteq> wpass y"
  shows "runWrites e (pre @ xs @ ys @ post) = runWrites e (pre @ ys @ xs @ post)"
proof -
  have "foldl applyWrite (foldl applyWrite e pre) (xs @ ys) = foldl applyWrite (foldl applyWrite e pre) (ys @ xs)"
    by (rule foldl_commute) (rule applyWrite_commute, rule assms)
  then have "foldl applyWrite e (pre @ xs @ ys @ post) = foldl applyWrite e (pre @ ys @ xs @ post)"
    by simp
  moreover have "list_ex (blocked e) (pre @ xs @ ys @ post) = list_ex (blocked e) (pre @ ys @ xs @ post)"
    by (auto simp: list_ex_iff)
  ultimately show ?thesis by (simp only: runWrites_def)
qed

lemma runWrites_twice:
  "andThen (runWrites e ws) (\<lambda>e'. runWrites e' ws) = runWrites e ws"
proof -
  have "foldl applyWrite (foldl applyWrite e ws) ws = foldl applyWrite e ws"
    by (rule foldl_idem) (rule applyWrite_absorb, rule applyWrite_idem)
  then show ?thesis
    by (auto simp: andThen_def runWrites_def list_ex_iff)
qed

subsection \<open>The line parser in closed form\<close>

lemma length_groups:
  "length ps = length p \<Longrightarrow> length (groups p ps cur) = ngroups p (cur \<noteq> None)"
proof (induction p arbitrary: ps cur)
  case Nil
  then show ?case by simp
next
  case (Cons i p)
  from Cons.prems obtain x ps' where ps: "ps = x # ps'" "length ps' = length p"
    by (cases ps) auto
  show ?case
    unfolding ps(1) using Cons.IH [OF ps(2)]
    by (cases i; cases cur) simp_all
qed

lemma length_submatches:
  "rmatch p b s = Some ps \<Longrightarrow> length (submatches p ps) = Suc (ngroups p False)"
  by (simp add: submatches_def length_groups rmatch_length)

lemma rsearch_SomeD:
  "rsearch p b s = Some m \<Longrightarrow> \<exists>b' s' ps. rmatch p b' s' = Some ps \<and> m = submatches p ps"
proof (induction s arbitrary: b)
  case Nil
  then show ?case by auto
next
  case (Cons c cs)
  show ?case
  proof (cases "rmatch p b (c # cs)")
    case None
    with Cons.prems have "rsearch p False cs = Some m" by simp
    then show ?thesis by (rule Cons.IH)
  next
    case (Some ps)
    with Cons.prems have "m = submatches p ps" by simp
    with Some show ?thesis by blast
  qed
qed

lemma historyLine_match_shape:
  assumes "FindStringSubmatch historyLinePatternV2 s = Some m"
  shows "\<exists>m0 monthDay timeStr m3 m4 remainder. m = [m0, monthDay, timeStr, m3, m4, remainder]"
proof -
  from assms rsearch_SomeD obtain b s' ps where
    ps: "rmatch historyLinePatternV2 b s' = Some ps" "m = submatches historyLinePatternV2 ps"
    unfolding FindStringSubmatch_def by blast
  have "length m = 6"
    unfolding ps(2) length_submatches [OF ps(1)]
    by (simp add: historyLinePatternV2_def lit_def digit_def)
  then show ?thesis
    by (simp add: length_Suc_conv eval_nat_numeral) blast
qed

lemma blocked_newEntry [simp]: "\<not> blocked (newEntry\<lparr>Timestamp := t\<rparr>) w"
  by (cases w) (simp_all add: newEntry_def)

lemma runWrites_newEntry:
  "runWrites (newEntry\<lparr>Timestamp := t\<rparr>) ws = Inr (foldl applyWrite (newEntry\<lparr>Timestamp := t\<rparr>) ws)"
  by (simp add: runWrites_def list_ex_iff)

lemma passes_writes:
  "andThen (parseStateTransitionsV2 e r) (\<lambda>e. andThen (parseKeyValuePairsV2 e r) (\<lambda>e. parseWakeReasonsV2 e r))
     = runWrites e (lineWrites r)"
  by (simp add: parseStateTransitionsV2_writes parseKeyValuePairsV2_writes parseWakeReasonsV2_writes
      runWrites_append lineWrites_def)

lemma ParseHistoryV2Line_eq:
  "ParseHistoryV2Line now line =
     (case FindStringSubmatch historyLinePatternV2 (TrimSpace line) of
        None \<Rightarrow> Inl InvalidFormat
      | Some matches \<Rightarrow>
          Inr (foldl applyWrite (newEntry\<lparr>Timestamp := lineTimestamp now matches\<rparr>) (lineWrites (matches ! 5))))"
proof (cases "FindStringSubmatch historyLinePatternV2 (TrimSpace line)")
  case None
  then show ?thesis by (simp add: ParseHistoryV2Line_def)
next
  case (Some m)
  from historyLine_match_shape [OF Some] obtain m0 monthDay timeStr m3 m4 remainder
    where m: "m = [m0, monthDay, timeStr, m3, m4, remainder]" by blast
  show ?thesis
    unfolding ParseHistoryV2Line_def Some m
    by (cases "time_Parse (''2026-'' @ monthDay @ '' '' @ timeStr)")
       (simp_all add: passes_writes runWrites_newEntry lineTimestamp_def Let_def)
qed

lemma TimestampMs_applyWrite [simp]: "TimestampMs (applyWrite e w) = TimestampMs e"
  by (cases w) simp_all

lemma TimestampMs_foldl [simp]: "TimestampMs (foldl applyWrite e ws) = TimestampMs e"
  by (induction ws arbitrary: e) simp_all

lemma Start_ConvertToCSVEntry: "Start (ConvertToCSVEntry e) = TimestampMs e"
  by (simp add: ConvertToCSVEntry_def Let_def)

lemma passes3:
  "runPasses [p1, p2, p3] r e = andThen (p1 e r) (\<lambda>e. andThen (p2 e r) (\<lambda>e. p3 e r))"
  by (simp add: runPasses_def andThen_def split: sum.splits)

lemma runPasses_writes:
  "runPasses [parseStateTransitionsV2, parseKeyValuePairsV2, parseWakeReasonsV2] r e =
     runWrites e (map (\<lambda>(n, b). PutState n b) (acceptedToggles r) @ keyValueWrites r @ map PutWakeReason (wakeReasons r))"
  "runPasses [parseStateTransitionsV2, parseWakeReasonsV2, parseKeyValuePairsV2] r e =
     runWrites e (map (\<lambda>(n, b). PutState n b) (acceptedToggles r) @ map PutWakeReason (wakeReasons r) @ keyValueWrites r)"
  "runPasses [parseKeyValuePairsV2, parseStateTransitionsV2, parseWakeReasonsV2] r e =
     runWrites e (keyValueWrites r @ map (\<lambda>(n, b). PutState n b) (acceptedToggles r) @ map PutWakeReason (wakeReasons r))"
  "runPasses [parseKeyValuePairsV2, parseWakeReasonsV2, parseStateTransitionsV2] r e =
     runWrites e (keyValueWrites r @ map PutWakeReason (wakeReasons r) @ map (\<lambda>(n, b). PutState n b) (acceptedToggles r))"
  "runPasses [parseWakeReasonsV2, parseStateTransitionsV2, parseKeyValuePairsV2] r e =
     runWrites e (map PutWakeReason (wakeReasons r) @ map (\<lambda>(n, b). PutState n b) (acceptedToggles r) @ keyValueWrites r)"
  "runPasses [parseWakeReasonsV2, parseKeyValuePairsV2, parseStateTransitionsV2] r e =
     runWrites e (map PutWakeReason (wakeReasons r) @ keyValueWrites r @ map (\<lambda>(n, b). PutState n b) (acceptedToggles r))"
  by (simp_all add: passes3 parseStateTransitionsV2_writes parseKeyValuePairsV2_writes
      parseWakeReasonsV2_writes runWrites_append)

lemma swap_first:
  assumes "\<And>x y. x \<in> set xs \<Longrightarrow> y \<in> set ys \<Longrightarrow> wpass x \<noteq> wpass y"
  shows "runWrites e (xs @ ys @ zs) = runWrites e (ys @ xs @ zs)"
  using runWrites_swap [of xs ys e "[]" zs] assms by simp

lemma swap_last:
  assumes "\<And>x y. x \<in> set xs \<Longrightarrow> y \<in> set ys \<Longrightarrow> wpass x \<noteq> wpass y"
  shows "runWrites e (zs @ xs @ ys) = runWrites e (zs @ ys @ xs)"
  using runWrites_swap [of xs ys e zs "[]"] assms by simp

subsection \<open>Skipped tokens and repeated toggles\<close>

lemma forEach_append:
  "forEach body s (xs @ ys) = andThen (forEach body s xs) (\<lambda>s'. forEach body s' ys)"
  by (induction xs arbitrary: s) (simp_all add: andThen_def split: sum.splits)

lemma keyValueStep_bad_number:
  "numericKind key = Some bits \<Longrightarrow> ParseInt val bits = None \<Longrightarrow> keyValueStep e [m0, key, val] = Inr e"
  unfolding numericKind_def keyValueStep_def
  by (cases "key = ''volt''"; cases "key = ''temp''"; cases "key = ''wifi_signal_strength''";
      cases "key = ''charge''"; cases "key = ''modemRailChargemAh''"; cases "key = ''wifiRailChargemAh''";
      simp)

lemma keyValueStep_unrecognized:
  "\<not> recognized key \<Longrightarrow> keyValueStep e [m0, key, val] = Inr e"
  by (simp add: recognized_def keyValueStep_def)

lemma putKey_pair: "putKey m (n, b) = m(n \<mapsto> b)"
  by (simp add: putKey_def)

lemma States_foldl_PutState:
  "States (foldl applyWrite e (map (\<lambda>(n, b). PutState n b) ts)) =
     map_option (\<lambda>m. foldl putKey m ts) (States e)"
proof (induction ts arbitrary: e)
  case Nil
  show ?case by (cases "States e") simp_all
next
  case (Cons t ts)
  obtain n b where t: "t = (n, b)" by (cases t)
  show ?case
    by (cases "States e") (simp_all add: t Cons.IH putKey_pair [symmetric])
qed

lemma foldl_putKey_other:
  "name \<notin> fst ` set ts \<Longrightarrow> foldl putKey m ts name = m name"
proof (induction ts arbitrary: m)
  case Nil
  show ?case by simp
next
  case (Cons t ts)
  obtain n b where t: "t = (n, b)" by (cases t)
  from Cons.prems have "name \<noteq> n" "name \<notin> fst ` set ts"
    by (auto simp: t)
  then show ?case
    by (simp add: t Cons.IH putKey_pair)
qed

subsection \<open>The clock\<close>

lemma applyWrite_Timestamp:
  "applyWrite (e\<lparr>Timestamp := t\<rparr>) w = (applyWrite e w)\<lparr>Timestamp := t\<rparr>"
  by (cases w) simp_all

lemma foldl_applyWrite_Timestamp:
  "foldl applyWrite (e\<lparr>Timestamp := t\<rparr>) ws = (foldl applyWrite e ws)\<lparr>Timestamp := t\<rparr>"
  by (induction ws arbitrary: e) (simp_all add: applyWrite_Timestamp)

subsection \<open>The matcher against the grammar\<close>

lemma rplus_complete:
  "w \<noteq> [] \<Longrightarrow> list_all (amatch a) w \<Longrightarrow> k r \<noteq> None \<Longrightarrow> rplus a k (w @ r) \<noteq> None"
proof (induction w)
  case Nil
  then show ?case by simp
next
  case (Cons c w)
  show ?case
  proof (cases "w = []")
    case True
    with Cons.prems show ?thesis by (auto split: option.splits)
  next
    case False
    with Cons have "rplus a k (w @ r) \<noteq> None" by simp
    with Cons.prems show ?thesis by (auto split: option.splits)
  qed
qed

lemma rplus_iff:
  "(rplus a k s \<noteq> None) = (\<exists>w r. s = w @ r \<and> w \<noteq> [] \<and> list_all (amatch a) w \<and> k r \<noteq> None)"
proof
  assume "rplus a k s \<noteq> None"
  then obtain w r where "rplus a k s = Some (w, r)" by auto
  from rplus_SomeD [OF this] show "\<exists>w r. s = w @ r \<and> w \<noteq> [] \<and> list_all (amatch a) w \<and> k r \<noteq> None"
    by auto
next
  assume "\<exists>w r. s = w @ r \<and> w \<noteq> [] \<and> list_all (amatch a) w \<and> k r \<noteq> None"
  then show "rplus a k s \<noteq> None"
    using rplus_complete by blast
qed

lemma rmatch_accepts: "(rmatch p b s \<noteq> None) = accepts p b s"
proof (induction p arbitrary: b s)
  case Nil
  show ?case by simp
next
  case (Cons i p)
  show ?case
  proof (cases i)
    case (One a)
    show ?thesis
      by (cases s) (simp_all add: One Cons.IH [symmetric])
  next
    case (Many1 a)
    have "(rmatch (Many1 a # p) b s \<noteq> None) = (rplus a (\<lambda>t. rmatch p False t) s \<noteq> None)"
      by simp
    also have "\<dots> = (\<exists>w r. s = w @ r \<and> w \<noteq> [] \<and> list_all (amatch a) w \<and> rmatch p False r \<noteq> None)"
      by (rule rplus_iff)
    also have "\<dots> = accepts (Many1 a # p) b s"
      by (simp only: Cons.IH accepts.simps)
    finally show ?thesis by (simp only: Many1)
  next
    case (Many0 a)
    have "(rmatch (Many0 a # p) b s \<noteq> None) =
        (rplus a (\<lambda>t. rmatch p False t) s \<noteq> None \<or> rmatch p b s \<noteq> None)"
      by (auto split: option.splits)
    also have "\<dots> = ((\<exists>w r. s = w @ r \<and> w \<noteq> [] \<and> list_all (amatch a) w \<and> accepts p False r)
        \<or> accepts p b s)"
      by (simp only: rplus_iff Cons.IH)
    also have "\<dots> = accepts (Many0 a # p) b s"
    proof
      assume "(\<exists>w r. s = w @ r \<and> w \<noteq> [] \<and> list_all (amatch a) w \<and> accepts p False r) \<or> accepts p b s"
      then show "accepts (Many0 a # p) b s"
      proof
        assume "\<exists>w r. s = w @ r \<and> w \<noteq> [] \<and> list_all (amatch a) w \<and> accepts p False r"
        then obtain w r where "s = w @ r" "w \<noteq> []" "list_all (amatch a) w" "accepts p False r"
          by blast
        then have "s = w @ r \<and> list_all (amatch a) w \<and> accepts p (b \<and> w = []) r"
          by simp
        then show ?thesis unfolding accepts.simps by blast
      next
        assume "accepts p b s"
        then have "s = [] @ s \<and> list_all (amatch a) [] \<and> accepts p (b \<and> ([]::string) = []) s"
          by simp
        then show ?thesis unfolding accepts.simps by blast
      qed
    next
      assume "accepts (Many0 a # p) b s"
      then obtain w r where wr: "s = w @ r" "list_all (amatch a) w" "accepts p (b \<and> w = []) r"
        by auto
      show "(\<exists>w r. s = w @ r \<and> w \<noteq> [] \<and> list_all (amatch a) w \<and> accepts p False r) \<or> accepts p b s"
      proof (cases "w = []")
        case True
        with wr show ?thesis by simp
      next
        case False
        with wr show ?thesis by auto
      qed
    qed
    finally show ?thesis by (simp only: Many0)
  qed (simp_all add: Cons.IH [symmetric])
qed

lemma rsearch_Bol_False: "rsearch (Bol # p) False s = None"
  by (induction s) simp_all

lemma rsearch_Bol: "(rsearch (Bol # p) True s \<noteq> None) = (rmatch (Bol # p) True s \<noteq> None)"
  by (cases s) (auto simp: rsearch_Bol_False split: option.splits)

lemma amatch_classes:
  "amatch (In [PerlD]) = isDigit"
  "amatch (In [PerlS]) = isSpaceChar"
  "amatch (In [Rng (CHR ''0'') (CHR ''9''), Rng (CHR ''a'') (CHR ''f'')]) = isHexChar"
  by (auto simp: isDigit_def isSpaceChar_def isHexChar_def fun_eq_iff)

lemma accepts_lit:
  "accepts (lit x # p) b s = (\<exists>cs. s = x # cs \<and> accepts p False cs)"
  by (auto simp: lit_def)

lemma accepts_digit:
  "accepts (digit # p) b s = (\<exists>c cs. s = c # cs \<and> isDigit c \<and> accepts p False cs)"
  by (simp add: digit_def amatch_classes)

lemma list_all_AnyChar: "list_all (amatch AnyChar) r = (CHR 0x0A \<notin> set r)"
  by (auto simp: list_all_iff)

lemma accepts_rest:
  "accepts [GOpen, Many0 AnyChar, GClose, Eol] b s = (CHR 0x0A \<notin> set s)"
  by (auto simp: list_all_AnyChar)

lemmas accepts_simps = amatch_classes accepts_lit accepts_digit list_all_AnyChar accepts_rest

lemma accepts_Many1I:
  "w \<noteq> [] \<Longrightarrow> list_all (amatch a) w \<Longrightarrow> accepts p False r \<Longrightarrow> accepts (Many1 a # p) b (w @ r)"
  by auto

lemma format2Line_accepts:
  assumes "format2Line s"
  shows "accepts historyLinePatternV2 True s"
proof -
  from assms obtain d1 d2 d3 d4 w1 h1 h2 m1 m2 s1 s2 f1 f2 f3 w2 sq w3 bm w4 rest where
    s: "s = [d1, d2, CHR ''-'', d3, d4] @ w1
            @ [h1, h2, CHR '':'', m1, m2, CHR '':'', s1, s2, CHR ''.'', f1, f2, f3] @ w2
            @ sq @ w3 @ bm @ w4 @ rest"
    and d: "list_all isDigit [d1, d2, d3, d4, h1, h2, m1, m2, s1, s2, f1, f2, f3]"
    and w1: "w1 \<noteq> []" "list_all isSpaceChar w1"
    and w2: "w2 \<noteq> []" "list_all isSpaceChar w2"
    and sq: "sq \<noteq> []" "list_all isDigit sq"
    and w3: "w3 \<noteq> []" "list_all isSpaceChar w3"
    and bm: "bm \<noteq> []" "list_all isHexChar bm"
    and w4: "w4 \<noteq> []" "list_all isSpaceChar w4"
    and rest: "CHR 0x0A \<notin> set rest"
    unfolding format2Line_def by blast
  have t1: "accepts (Many1 (In [PerlS]) # [GOpen, Many0 AnyChar, GClose, Eol]) False (w4 @ rest)"
    by (rule accepts_Many1I) (simp_all add: w4 rest accepts_simps)
  have t2: "accepts (Many1 (In [Rng (CHR ''0'') (CHR ''9''), Rng (CHR ''a'') (CHR ''f'')]) # GClose #
      Many1 (In [PerlS]) # [GOpen, Many0 AnyChar, GClose, Eol]) False (bm @ w4 @ rest)"
    by (rule accepts_Many1I) (use t1 in \<open>simp_all add: bm accepts_simps\<close>)
  have t3: "accepts (Many1 (In [PerlS]) # GOpen #
      Many1 (In [Rng (CHR ''0'') (CHR ''9''), Rng (CHR ''a'') (CHR ''f'')]) # GClose #
      Many1 (In [PerlS]) # [GOpen, Many0 AnyChar, GClose, Eol]) False (w3 @ bm @ w4 @ rest)"
    by (rule accepts_Many1I) (use t2 in \<open>simp_all add: w3 accepts_simps\<close>)
  have t4: "accepts (Many1 (In [PerlD]) # GClose # Many1 (In [PerlS]) # GOpen #
      Many1 (In [Rng (CHR ''0'') (CHR ''9''), Rng (CHR ''a'') (CHR ''f'')]) # GClose #
      Many1 (In [PerlS]) # [GOpen, Many0 AnyChar, GClose, Eol]) False (sq @ w3 @ bm @ w4 @ rest)"
    by (rule accepts_Many1I) (use t3 in \<open>simp_all add: sq accepts_simps\<close>)
  have t5: "accepts (Many1 (In [PerlS]) # GOpen # Many1 (In [PerlD]) # GClose # Many1 (In [PerlS]) # GOpen #
      Many1 (In [Rng (CHR ''0'') (CHR ''9''), Rng (CHR ''a'') (CHR ''f'')]) # GClose #
      Many1 (In [PerlS]) # [GOpen, Many0 AnyChar, GClose, Eol]) False (w2 @ sq @ w3 @ bm @ w4 @ rest)"
    by (rule accepts_Many1I) (use t4 in \<open>simp_all add: w2 accepts_simps\<close>)
  have t6: "accepts (Many1 (In [PerlS]) # GOpen # digit # digit # lit CHR '':'' # digit # digit #
      lit CHR '':'' # digit # digit # lit CHR ''.'' # digit # digit # digit # GClose #
      Many1 (In [PerlS]) # GOpen # Many1 (In [PerlD]) # GClose # Many1 (In [PerlS]) # GOpen #
      Many1 (In [Rng (CHR ''0'') (CHR ''9''), Rng (CHR ''a'') (CHR ''f'')]) # GClose #
      Many1 (In [PerlS]) # [GOpen, Many0 AnyChar, GClose, Eol]) False
      (w1 @ [h1, h2, CHR '':'', m1, m2, CHR '':'', s1, s2, CHR ''.'', f1, f2, f3] @ w2 @ sq @ w3 @ bm @ w4 @ rest)"
    by (rule accepts_Many1I) (use t5 d in \<open>simp_all add: w1 accepts_simps\<close>)
  show ?thesis
    unfolding historyLinePatternV2_def s using t6 d by (simp add: accepts_simps)
qed

lemma accepts_format2Line:
  assumes "accepts historyLinePatternV2 True s"
  shows "format2Line s"
proof -
  from assms obtain d1 d2 d3 d4 w1 h1 h2 m1 m2 s1 s2 f1 f2 f3 w2 sq w3 bm w4 rest where
    s: "s = d1 # d2 # CHR ''-'' # d3 # d4 # w1 @ h1 # h2 # CHR '':'' # m1 # m2 # CHR '':'' # s1 # s2
          # CHR ''.'' # f1 # f2 # f3 # w2 @ sq @ w3 @ bm @ w4 @ rest"
    and d: "isDigit d1" "isDigit d2" "isDigit d3" "isDigit d4" "isDigit h1" "isDigit h2"
      "isDigit m1" "isDigit m2" "isDigit s1" "isDigit s2" "isDigit f1" "isDigit f2" "isDigit f3"
    and w: "w1 \<noteq> []" "list_all isSpaceChar w1" "w2 \<noteq> []" "list_all isSpaceChar w2"
      "sq \<noteq> []" "list_all isDigit sq" "w3 \<noteq> []" "list_all isSpaceChar w3"
      "bm \<noteq> []" "list_all isHexChar bm" "w4 \<noteq> []" "list_all isSpaceChar w4"
      "CHR 0x0A \<notin> set rest"
    unfolding historyLinePatternV2_def by (auto simp: accepts_simps)
  have "s = [d1, d2, CHR ''-'', d3, d4] @ w1
            @ [h1, h2, CHR '':'', m1, m2, CHR '':'', s1, s2, CHR ''.'', f1, f2, f3] @ w2
            @ sq @ w3 @ bm @ w4 @ rest"
    by (simp add: s)
  moreover have "list_all isDigit [d1, d2, d3, d4, h1, h2, m1, m2, s1, s2, f1, f2, f3]"
    using d by simp
  ultimately show ?thesis
    unfolding format2Line_def using w by blast
qed

lemma MatchString_format2Line: "MatchString historyLinePatternV2 s = format2Line s"
proof -
  have "MatchString historyLinePatternV2 s = (rmatch historyLinePatternV2 True s \<noteq> None)"
    unfolding MatchString_def historyLinePatternV2_def by (rule rsearch_Bol)
  also have "\<dots> = accepts historyLinePatternV2 True s"
    by (rule rmatch_accepts)
  also have "\<dots> = format2Line s"
    using accepts_format2Line format2Line_accepts by blast
  finally show ?thesis .
qed

lemma FindStringSubmatch_format2Line:
  "(FindStringSubmatch historyLinePatternV2 s = None) = (\<not> format2Line s)"
  using MatchString_format2Line [of s] unfolding MatchString_def FindStringSubmatch_def by blast

lemma States_foldl_None: "(States (foldl applyWrite e ws) = None) = (States e = None)"
  using blocked_foldl [of e ws "PutState [] True"] by simp

lemma WakeReasons_foldl_None: "(WakeReasons (foldl applyWrite e ws) = None) = (WakeReasons e = None)"
  using blocked_foldl [of e ws "PutWakeReason []"] by simp

lemma RailCharges_foldl_None: "(RailCharges (foldl applyWrite e ws) = None) = (RailCharges e = None)"
  using blocked_foldl [of e ws "PutRailCharge [] 0"] by simp

lemma detectLines_find:
  "detectLines ls =
     (case find (\<lambda>l. legacyLine l \<or> format2Line l) ls of
        None \<Rightarrow> 1 | Some l \<Rightarrow> if legacyLine l then 1 else 2)"
  by (induction ls) (simp_all add: legacyLine_def MatchString_format2Line)

lemma detectLines_legacy_first:
  "legacyLine l \<Longrightarrow> list_all (\<lambda>x. \<not> format2Line x) before \<Longrightarrow> detectLines (before @ l # after) = 1"
  by (induction before) (simp_all add: legacyLine_def MatchString_format2Line)

subsection \<open>The wake-reason pattern read deterministically\<close>

lemma rplus_det:
  assumes k: "\<And>c t. amatch a c \<Longrightarrow> k (c # t) = None"
  shows "rplus a k s =
     (if takeWhile (amatch a) s = [] then None
      else map_option (Pair (takeWhile (amatch a) s)) (k (dropWhile (amatch a) s)))"
proof (induction s)
  case Nil
  show ?case by simp
next
  case (Cons c cs)
  show ?case
  proof (cases "amatch a c")
    case False
    then show ?thesis by simp
  next
    case True
    show ?thesis
    proof (cases "takeWhile (amatch a) cs = []")
      case empty: True
      then have "dropWhile (amatch a) cs = cs"
        by (cases cs) (auto split: if_splits)
      with True empty Cons.IH show ?thesis
        by (auto split: option.splits)
    next
      case nonempty: False
      then obtain c' cs' where cs: "cs = c' # cs'" "amatch a c'"
        by (cases cs) (auto split: if_splits)
      then have "k cs = None" by (simp add: k)
      with True nonempty Cons.IH show ?thesis
        by (auto split: option.splits)
    qed
  qed
qed

lemma map_option_append_Nil: "map_option ((@) []) x = x"
  by (cases x) simp_all

lemma rmatch_lit_Cons:
  "rmatch (lit x # q) b (c # cs) = (if c = x then map_option ((#) [c]) (rmatch q False cs) else None)"
  by (simp add: lit_def)

lemma rmatch_lit_Nil: "rmatch (lit x # q) b [] = None"
  by (simp add: lit_def)

lemma rmatch_lits:
  "rmatch (map lit l @ p) b s =
     (if take (length l) s = l
      then map_option ((@) (map (\<lambda>c. [c]) l)) (rmatch p (b \<and> l = []) (drop (length l) s))
      else None)"
proof (induction l arbitrary: b s)
  case Nil
  show ?case by (simp add: map_option_append_Nil)
next
  case (Cons x l)
  show ?case
  proof (cases s)
    case Nil
    then show ?thesis by (simp add: rmatch_lit_Nil)
  next
    case (Cons c cs)
    show ?thesis
      unfolding Cons
      by (simp add: rmatch_lit_Cons Cons.IH option.map_comp comp_def)
  qed
qed

lemma amatch_notQuote: "amatch (NotIn [Ch (CHR 0x22)]) = notQuote"
  by (auto simp: notQuote_def fun_eq_iff)

lemma amatch_PerlD: "amatch (In [PerlD]) = isDigit"
  by (auto simp: isDigit_def fun_eq_iff)

lemma wake_close:
  "rmatch [GClose, lit (CHR 0x22)] False r =
     (case r of [] \<Rightarrow> None | c # cs \<Rightarrow> if c = CHR 0x22 then Some [[], [CHR 0x22]] else None)"
  by (cases r) (simp_all add: lit_def)

lemma dropWhile_notQuote:
  "dropWhile notQuote r \<noteq> [] \<Longrightarrow> \<exists>cs. dropWhile notQuote r = CHR 0x22 # cs"
  using hd_dropWhile [of notQuote r]
  by (cases "dropWhile notQuote r") (auto simp: notQuote_def)

lemma wake_text:
  "rmatch [GOpen, Many1 (NotIn [Ch (CHR 0x22)]), GClose, lit (CHR 0x22)] False r2 =
     (if takeWhile notQuote r2 \<noteq> [] \<and> dropWhile notQuote r2 \<noteq> []
      then Some [[], takeWhile notQuote r2, [], [CHR 0x22]] else None)"
proof -
  define k where "k = (\<lambda>t. rmatch [GClose, lit (CHR 0x22)] False t)"
  have kdet: "k (c # t) = None" if "amatch (NotIn [Ch (CHR 0x22)]) c" for c t
    using that by (simp add: k_def lit_def)
  have kval: "k (dropWhile notQuote r2) =
     (if dropWhile notQuote r2 \<noteq> [] then Some [[], [CHR 0x22]] else None)"
  proof (cases "dropWhile notQuote r2 = []")
    case True
    show ?thesis unfolding True by (simp add: k_def lit_def)
  next
    case False
    from dropWhile_notQuote [OF False] obtain cs where "dropWhile notQuote r2 = CHR 0x22 # cs"
      by blast
    then show ?thesis by (simp add: k_def lit_def)
  qed
  have "rmatch [GOpen, Many1 (NotIn [Ch (CHR 0x22)]), GClose, lit (CHR 0x22)] False r2 =
      map_option ((#) []) (map_option (\<lambda>(w, r). w # r) (rplus (NotIn [Ch (CHR 0x22)]) k r2))"
    unfolding k_def by (simp only: rmatch.simps(3) rmatch.simps(7))
  also have "rplus (NotIn [Ch (CHR 0x22)]) k r2 =
     (if takeWhile notQuote r2 = [] then None
      else map_option (Pair (takeWhile notQuote r2)) (k (dropWhile notQuote r2)))"
    using rplus_det [of "NotIn [Ch (CHR 0x22)]" k r2, OF kdet] by (simp add: amatch_notQuote)
  finally show ?thesis
    by (simp add: kval)
qed

lemma wake_colon:
  "rmatch [lit (CHR '':''), lit (CHR 0x22), GOpen, Many1 (NotIn [Ch (CHR 0x22)]), GClose, lit (CHR 0x22)] False r1 =
     (if take 2 r1 = [CHR '':'', CHR 0x22]
      then map_option (\<lambda>ps. [CHR '':''] # [CHR 0x22] # ps)
             (rmatch [GOpen, Many1 (NotIn [Ch (CHR 0x22)]), GClose, lit (CHR 0x22)] False (drop 2 r1))
      else None)"
proof -
  consider "r1 = []" | x where "r1 = [x]" | x y t where "r1 = x # y # t"
    by (cases r1; cases "tl r1") auto
  then show ?thesis
  proof cases
    case 1
    then show ?thesis by (simp add: rmatch_lit_Nil)
  next
    case 2
    then show ?thesis by (simp add: rmatch_lit_Nil rmatch_lit_Cons)
  next
    case 3
    then show ?thesis
      by (simp only: rmatch_lit_Cons take_Cons_numeral drop_Cons_numeral) (auto simp: option.map_comp comp_def)
  qed
qed

lemma wake_digits:
  "rmatch [Many1 (In [PerlD]), lit (CHR '':''), lit (CHR 0x22), GOpen, Many1 (NotIn [Ch (CHR 0x22)]),
      GClose, lit (CHR 0x22)] False r =
     (if takeWhile isDigit r = [] then None
      else map_option ((#) (takeWhile isDigit r))
        (rmatch [lit (CHR '':''), lit (CHR 0x22), GOpen, Many1 (NotIn [Ch (CHR 0x22)]), GClose,
           lit (CHR 0x22)] False (dropWhile isDigit r)))"
proof -
  define k where "k = (\<lambda>t. rmatch [lit (CHR '':''), lit (CHR 0x22), GOpen,
      Many1 (NotIn [Ch (CHR 0x22)]), GClose, lit (CHR 0x22)] False t)"
  have kdet: "k (c # t) = None" if "amatch (In [PerlD]) c" for c t
    using that by (auto simp: k_def lit_def inRange_def)
  have "rmatch [Many1 (In [PerlD]), lit (CHR '':''), lit (CHR 0x22), GOpen,
      Many1 (NotIn [Ch (CHR 0x22)]), GClose, lit (CHR 0x22)] False r =
      map_option (\<lambda>(w, r). w # r) (rplus (In [PerlD]) k r)"
    unfolding k_def by (simp only: rmatch.simps(3))
  also have "rplus (In [PerlD]) k r =
     (if takeWhile isDigit r = [] then None
      else map_option (Pair (takeWhile isDigit r)) (k (dropWhile isDigit r)))"
    using rplus_det [of "In [PerlD]" k r, OF kdet] by (simp add: amatch_PerlD)
  finally show ?thesis
    by (simp add: option.map_comp comp_def k_def)
qed

lemma wake_rmatch:
  "rmatch wakeReasonPattern b s =
     (case wakeTokenAt s of
        None \<Rightarrow> None
      | Some (quoted, n) \<Rightarrow>
          Some (map (\<lambda>c. [c]) ''wake_reason='' @
                [takeWhile isDigit (drop 12 s), [CHR '':''], [CHR 0x22], [], quoted, [], [CHR 0x22]]))"
proof -
  have len: "length ''wake_reason='' = 12" by simp
  have lits: "rmatch (map lit ''wake_reason='' @ p) b s =
     (if take 12 s = ''wake_reason=''
      then map_option ((@) (map (\<lambda>c. [c]) ''wake_reason='')) (rmatch p False (drop 12 s))
      else None)" for p
    using rmatch_lits [of "''wake_reason=''" p b s] unfolding len
    by (simp only: list.distinct simp_thms)
  show ?thesis
    unfolding wakeReasonPattern_def lits wake_digits wake_colon wake_text wakeTokenAt_def Let_def
    by (simp split: if_splits)
qed

lemma wake_rmatch_None: "wakeTokenAt s = None \<Longrightarrow> rmatch wakeReasonPattern b s = None"
  by (simp add: wake_rmatch)

lemma wake_rmatch_Some:
  assumes "wakeTokenAt s = Some (quoted, n)"
  shows "\<exists>ps. rmatch wakeReasonPattern b s = Some ps \<and> length (concat ps) = n
     \<and> submatches wakeReasonPattern ps ! Suc 0 = quoted"
proof -
  let ?ps = "map (\<lambda>c. [c]) ''wake_reason='' @
                [takeWhile isDigit (drop 12 s), [CHR '':''], [CHR 0x22], [], quoted, [], [CHR 0x22]]"
  have m: "rmatch wakeReasonPattern b s = Some ?ps"
    by (simp add: wake_rmatch assms)
  from assms have n: "n = 12 + length (takeWhile isDigit (drop 12 s)) + 2 + length quoted + 1"
    by (auto simp: wakeTokenAt_def Let_def split: if_splits)
  have "length (concat ?ps) = n"
    by (simp add: n)
  moreover have "submatches wakeReasonPattern ?ps ! Suc 0 = quoted"
    by (simp add: submatches_def wakeReasonPattern_def lit_def)
  ultimately show ?thesis using m by blast
qed

lemma wake_scan: "map (\<lambda>m. m ! Suc 0) (scanAll wakeReasonPattern b k s) = wakeScan k s"
proof (induction s arbitrary: b k)
  case Nil
  have "wakeTokenAt [] = None" by (simp add: wakeTokenAt_def)
  then show ?case by (simp add: wake_rmatch_None)
next
  case (Cons c cs)
  show ?case
  proof (cases "0 < k")
    case True
    then show ?thesis by (simp add: Cons.IH)
  next
    case False
    show ?thesis
    proof (cases "wakeTokenAt (c # cs)")
      case None
      with False show ?thesis by (simp add: wake_rmatch_None Cons.IH)
    next
      case (Some tn)
      obtain quoted n where tn: "tn = (quoted, n)" by (cases tn)
      from wake_rmatch_Some [of "c # cs" quoted n b] Some tn obtain ps where
        "rmatch wakeReasonPattern b (c # cs) = Some ps" "length (concat ps) = n"
        "submatches wakeReasonPattern ps ! Suc 0 = quoted"
        by auto
      with False Some tn show ?thesis by (simp add: Cons.IH)
    qed
  qed
qed

lemma wakeReasons_tokens: "wakeReasons line = wakeTokens line"
  by (simp add: wakeReasons_def wakeTokens_def FindAllStringSubmatch_def wake_scan)

lemma foldl_PutWakeReason:
  "foldl applyWrite e (map PutWakeReason rs) =
     e\<lparr>WakeReasons := map_option (\<lambda>m r. if r \<in> set rs then Some True else m r) (WakeReasons e)\<rparr>"
proof (induction rs arbitrary: e)
  case Nil
  show ?case by (cases "WakeReasons e") simp_all
next
  case (Cons r rs)
  have "(\<lambda>x. if x \<in> set rs then Some True else (m(r \<mapsto> True)) x) =
        (\<lambda>x. if x \<in> set (r # rs) then Some True else m x)" for m :: "string \<rightharpoonup> bool"
    by (rule ext) auto
  then show ?case
    by (cases "WakeReasons e") (simp_all add: Cons.IH)
qed

subsection \<open>Matches consume text\<close>

lemma rmatch_consumes:
  "rmatch p b s = Some ps \<Longrightarrow> \<exists>t. s = concat ps @ t"
proof (induction p arbitrary: b s ps)
  case Nil
  then show ?case by simp
next
  case (Cons i p)
  show ?case
  proof (cases i)
    case (One a)
    with Cons.prems obtain c cs r where "s = c # cs" "rmatch p False cs = Some r" "ps = [c] # r"
      by (auto split: list.splits if_splits)
    with Cons.IH [of False cs r] show ?thesis by auto
  next
    case (Many1 a)
    with Cons.prems obtain w r where wr: "rplus a (\<lambda>t. rmatch p False t) s = Some (w, r)" "ps = w # r"
      by auto
    from rplus_SomeD [OF wr(1)] obtain t where "s = w @ t" "rmatch p False t = Some r"
      by auto
    with Cons.IH [of False t r] wr(2) show ?thesis by auto
  next
    case (Many0 a)
    show ?thesis
    proof (cases "rplus a (\<lambda>t. rmatch p False t) s")
      case None
      with Cons.prems Many0 obtain r where "rmatch p b s = Some r" "ps = [] # r"
        by auto
      with Cons.IH [of b s r] show ?thesis by auto
    next
      case (Some wr)
      obtain w r where wr: "wr = (w, r)" by (cases wr)
      from rplus_SomeD Some wr obtain t where "s = w @ t" "rmatch p False t = Some r"
        by blast
      moreover from Cons.prems Many0 Some wr have "ps = w # r" by simp
      ultimately show ?thesis using Cons.IH [of False t r] by auto
    qed
  next
    case Bol
    with Cons.prems obtain r where "rmatch p b s = Some r" "ps = [] # r"
      by (auto split: if_splits)
    with Cons.IH [of b s r] show ?thesis by auto
  next
    case Eol
    with Cons.prems obtain r where "rmatch p b s = Some r" "ps = [] # r"
      by (auto split: if_splits)
    with Cons.IH [of b s r] show ?thesis by auto
  next
    case GOpen
    with Cons.prems obtain r where "rmatch p b s = Some r" "ps = [] # r"
      by auto
    with Cons.IH [of b s r] show ?thesis by auto
  next
    case GClose
    with Cons.prems obtain r where "rmatch p b s = Some r" "ps = [] # r"
      by auto
    with Cons.IH [of b s r] show ?thesis by auto
  qed
qed

lemma rmatch_conforms: "rmatch p b s = Some ps \<Longrightarrow> list_all2 conforms p ps"
proof (induction p arbitrary: b s ps)
  case Nil
  then show ?case by simp
next
  case (Cons i p)
  show ?case
  proof (cases i)
    case (One a)
    with Cons.prems obtain c cs r where "amatch a c" "rmatch p False cs = Some r" "ps = [c] # r"
      by (auto split: list.splits if_splits)
    with Cons.IH [of False cs r] One show ?thesis by simp
  next
    case (Many1 a)
    with Cons.prems obtain w r where wr: "rplus a (\<lambda>t. rmatch p False t) s = Some (w, r)" "ps = w # r"
      by auto
    from rplus_SomeD [OF wr(1)] obtain t where "w \<noteq> []" "list_all (amatch a) w" "rmatch p False t = Some r"
      by auto
    with Cons.IH [of False t r] wr(2) Many1 show ?thesis by simp
  next
    case (Many0 a)
    show ?thesis
    proof (cases "rplus a (\<lambda>t. rmatch p False t) s")
      case None
      with Cons.prems Many0 obtain r where "rmatch p b s = Some r" "ps = [] # r"
        by auto
      with Cons.IH [of b s r] Many0 show ?thesis by simp
    next
      case (Some wr)
      obtain w r where wr: "wr = (w, r)" by (cases wr)
      from rplus_SomeD Some wr obtain t where "list_all (amatch a) w" "rmatch p False t = Some r"
        by blast
      moreover from Cons.prems Many0 Some wr have "ps = w # r" by simp
      ultimately show ?thesis using Cons.IH [of False t r] Many0 by simp
    qed
  next
    case Bol
    with Cons.prems obtain r where "rmatch p b s = Some r" "ps = [] # r"
      by (auto split: if_splits)
    with Cons.IH [of b s r] Bol show ?thesis by simp
  next
    case Eol
    with Cons.prems obtain r where "rmatch p b s = Some r" "ps = [] # r"
      by (auto split: if_splits)
    with Cons.IH [of b s r] Eol show ?thesis by simp
  next
    case GOpen
    with Cons.prems obtain r where "rmatch p b s = Some r" "ps = [] # r"
      by auto
    with Cons.IH [of b s r] GOpen show ?thesis by simp
  next
    case GClose
    with Cons.prems obtain r where "rmatch p b s = Some r" "ps = [] # r"
      by auto
    with Cons.IH [of b s r] GClose show ?thesis by simp
  qed
qed

lemma scanned_patterns_need_text:
  "rmatch keyValuePattern b [] = None" "rmatch stateTransitionPattern b [] = None"
  "rmatch wakeReasonPattern b [] = None"
  by (simp_all add: keyValuePattern_def stateTransitionPattern_def wakeReasonPattern_def lit_def)

lemma no_empty_match:
  assumes "p = keyValuePattern \<or> p = stateTransitionPattern \<or> p = wakeReasonPattern"
    and "rmatch p b s = Some ps"
  shows "concat ps \<noteq> []"
  using rmatch_conforms [OF assms(2)] assms(1)
  by (auto simp: keyValuePattern_def stateTransitionPattern_def wakeReasonPattern_def lit_def
      list_all2_Cons1)

lemma Contains_char: "Contains s [x] = (x \<in> set s)"
proof -
  have "(0 \<le> indexFrom i s [x]) = (x \<in> set s)" for i
    by (induction s arbitrary: i) auto
  then show ?thesis by (simp add: Contains_def Index_def)
qed

lemma toggle_match_has_no_equals:
  assumes "m \<in> set (FindAllStringSubmatch stateTransitionPattern line)"
  shows "\<exists>sign name. m = [sign # name, [sign], name] \<and> (sign = CHR ''+'' \<or> sign = CHR ''-'')
     \<and> name \<noteq> [] \<and> list_all (cmatch PerlW) name \<and> \<not> Contains (sign # name) ''=''"
proof -
  from assms scanAll_mem obtain b s ps where
    ps: "rmatch stateTransitionPattern b s = Some ps" "m = submatches stateTransitionPattern ps"
    unfolding FindAllStringSubmatch_def by blast
  from rmatch_conforms [OF ps(1)] obtain sign name where
    shape: "ps = [[], [sign], [], [], name, []]" "sign = CHR ''+'' \<or> sign = CHR ''-''"
      "name \<noteq> []" "list_all (cmatch PerlW) name"
    by (auto simp: stateTransitionPattern_def list_all2_Cons1 list_all_iff)
  have "CHR ''='' \<notin> set name"
    using shape(4) by (auto simp: list_all_iff inRange_def)
  with shape(2) have "\<not> Contains (sign # name) ''=''"
    by (auto simp: Contains_char)
  with shape ps(2) show ?thesis
    by (simp add: submatches_def stateTransitionPattern_def)
qed

lemma ParseHistoryV2Line_runPasses:
  "ParseHistoryV2Line now line =
     (case FindStringSubmatch historyLinePatternV2 (TrimSpace line) of
        None \<Rightarrow> Inl InvalidFormat
      | Some matches \<Rightarrow>
          runPasses [parseStateTransitionsV2, parseKeyValuePairsV2, parseWakeReasonsV2] (matches ! 5)
            (newEntry\<lparr>Timestamp := lineTimestamp now matches\<rparr>))"
proof (cases "FindStringSubmatch historyLinePatternV2 (TrimSpace line)")
  case None
  then show ?thesis by (simp add: ParseHistoryV2Line_def)
next
  case (Some m)
  from historyLine_match_shape [OF Some] obtain m0 monthDay timeStr m3 m4 remainder
    where m: "m = [m0, monthDay, timeStr, m3, m4, remainder]" by blast
  show ?thesis
    unfolding ParseHistoryV2Line_def Some m passes3
    by (cases "time_Parse (''2026-'' @ monthDay @ '' '' @ timeStr)")
       (simp_all add: lineTimestamp_def Let_def)
qed

subsection \<open>Toggles by position and toggles by search\<close>

lemma matchesAt_scanAll: "map snd (matchesAt p b k i s) = scanAll p b k s"
proof (induction s arbitrary: b k i)
  case Nil
  show ?case by (cases "rmatch p b []") simp_all
next
  case (Cons c cs)
  show ?case by (cases "rmatch p b (c # cs)") (simp_all add: Cons.IH)
qed

lemma matchesAt_position:
  "(j, m) \<in> set (matchesAt p b k i s) \<Longrightarrow> \<exists>m0 gs t. m = m0 # gs \<and> i \<le> j \<and> drop (j - i) s = m0 @ t"
proof (induction s arbitrary: b k i)
  case Nil
  have "concat ps = []" if "rmatch p b [] = Some ps" for ps
    using rmatch_consumes [OF that] by simp
  with Nil.prems show ?case
    by (cases "rmatch p b []"; cases "k = 0") (auto simp: submatches_def)
next
  case (Cons c cs)
  show ?case
  proof (cases "0 < k")
    case True
    with Cons.prems have "(j, m) \<in> set (matchesAt p False (k - 1) (Suc i) cs)" by simp
    from Cons.IH [OF this] obtain m0 gs t where
      "m = m0 # gs" "Suc i \<le> j" "drop (j - Suc i) cs = m0 @ t" by blast
    moreover from this have "drop (j - i) (c # cs) = drop (j - Suc i) cs"
      by (simp add: Suc_diff_le drop_Cons')
    ultimately show ?thesis by auto
  next
    case False
    show ?thesis
    proof (cases "rmatch p b (c # cs)")
      case None
      with False Cons.prems have "(j, m) \<in> set (matchesAt p False 0 (Suc i) cs)" by simp
      from Cons.IH [OF this] obtain m0 gs t where
        "m = m0 # gs" "Suc i \<le> j" "drop (j - Suc i) cs = m0 @ t" by blast
      moreover from this have "drop (j - i) (c # cs) = drop (j - Suc i) cs"
        by (simp add: Suc_diff_le drop_Cons')
      ultimately show ?thesis by auto
    next
      case (Some ps)
      with False Cons.prems have
        "(j, m) = (i, submatches p ps) \<or> (j, m) \<in> set (matchesAt p False (length (concat ps) - 1) (Suc i) cs)"
        by simp
      then show ?thesis
      proof
        assume "(j, m) = (i, submatches p ps)"
        with rmatch_consumes [OF Some] show ?thesis
          by (auto simp: submatches_def)
      next
        assume "(j, m) \<in> set (matchesAt p False (length (concat ps) - 1) (Suc i) cs)"
        from Cons.IH [OF this] obtain m0 gs t where
          "m = m0 # gs" "Suc i \<le> j" "drop (j - Suc i) cs = m0 @ t" by blast
        moreover from this have "drop (j - i) (c # cs) = drop (j - Suc i) cs"
          by (simp add: Suc_diff_le drop_Cons')
        ultimately show ?thesis by auto
      qed
    qed
  qed
qed

lemma acceptedToggle_bounded:
  assumes "Index line m0 = int i"
  shows "acceptedToggle line [m0, transition, state] = boundedToggle line (i, [m0, transition, state])"
proof -
  have c: "Contains m0 ''='' = (CHR ''='' \<in> set m0)"
    by (rule Contains_char)
  have p: "nat (int i - 1) = i - 1" by simp
  have n: "nat (int i + int (length m0)) = i + length m0" by (simp add: nat_add_distrib)
  have l: "(int i + int (length m0) < int (length line)) = (i + length m0 < length line)" by linarith
  show ?thesis
    by (simp add: acceptedToggle_def boundedToggle_def Let_def assms c p n l delimiterBefore_def
      delimiterAfter_def del: of_nat_add)
qed

lemma acceptedToggles_bounded:
  assumes "\<And>i m. (i, m) \<in> set (matchesAt stateTransitionPattern True 0 0 line) \<Longrightarrow> Index line (hd m) = int i"
  shows "acceptedToggles line = boundedToggles line"
proof -
  let ?ms = "matchesAt stateTransitionPattern True 0 0 line"
  have each: "acceptedToggle line (snd im) = boundedToggle line im" if "im \<in> set ?ms" for im
  proof -
    obtain i m where im: "im = (i, m)" by (cases im)
    from that im have "m \<in> set (FindAllStringSubmatch stateTransitionPattern line)"
      unfolding FindAllStringSubmatch_def
        matchesAt_scanAll [of stateTransitionPattern True 0 0 line, symmetric] by force
    from stateTransition_match_shape [OF this] obtain m0 t s where m: "m = [m0, t, s]" by blast
    from assms [of i m] that im m have "Index line m0 = int i" by simp
    from acceptedToggle_bounded [OF this] im m show ?thesis by simp
  qed
  have "List.map_filter (acceptedToggle line) (map snd ms) = List.map_filter (boundedToggle line) ms"
    if "set ms \<subseteq> set ?ms" for ms
    using that by (induction ms) (auto simp: List.map_filter_simps each split: option.splits)
  from this [of ?ms] show ?thesis
    by (simp add: acceptedToggles_def boundedToggles_def FindAllStringSubmatch_def
        matchesAt_scanAll [of stateTransitionPattern True 0 0 line, symmetric])
qed

subsection \<open>Evaluation\<close>

text \<open>The definitions a concrete input is evaluated with.\<close>

lemmas rx_eval = historyLinePatternV2_def keyValuePattern_def stateTransitionPattern_def
  wakeReasonPattern_def lit_def digit_def inRange_def FindStringSubmatch_def
  FindAllStringSubmatch_def MatchString_def submatches_def

lemmas parse_eval = ParseHistoryV2Line_def rx_eval TrimSpace_def spaceRunes_def time_Parse_def
  isDigit_def digitVal_def daysIn_def isLeap_def parseStateTransitionsV2_def
  parseKeyValuePairsV2_def parseWakeReasonsV2_def stateTransitionStep_def keyValueStep_def
  wakeReasonStep_def andThen_def mapAssign_def Contains_def Index_def ParseInt_def newEntry_def
  Let_def

lemmas bounded_eval = boundedToggles_def boundedToggle_def delimiterBefore_def delimiterAfter_def
  List.map_filter_simps

section \<open>The claims\<close>

text \<open>
  C10. For every line that \<open>ParseHistoryV2Line\<close> accepts, the entry's millisecond
  offset \<open>TimestampMs\<close> is 0 (no statement of the parser assigns it), so the record
  that \<open>ConvertToCSVEntry\<close> builds from a freshly parsed entry starts at offset 0.
\<close>

theorem ParseHistoryV2Line_TimestampMs:
  "ParseHistoryV2Line now line = Inr entry \<Longrightarrow>
     TimestampMs entry = 0 \<and> Start (ConvertToCSVEntry entry) = 0"
proof -
  assume "ParseHistoryV2Line now line = Inr entry"
  then obtain t ws where "entry = foldl applyWrite (newEntry\<lparr>Timestamp := t\<rparr>) ws"
    by (auto simp: ParseHistoryV2Line_eq split: option.splits)
  then have "TimestampMs entry = 0"
    by (simp add: newEntry_def)
  then show ?thesis
    by (simp add: Start_ConvertToCSVEntry)
qed

theorem ParseHistoryV2Line_TimestampMs_witness:
  "ParseHistoryV2Line (Date 2026 6 1 0 0 0 0) ''01-11 12:11:14.405 075 c4002820 volt=4170 +running'' =
     Inr (newEntry\<lparr>Timestamp := Date 2026 1 11 12 11 14 405000000, Voltage := 4170,
            States := Some [''running'' \<mapsto> True]\<rparr>)
   \<and> TimestampMs (newEntry\<lparr>Timestamp := Date 2026 1 11 12 11 14 405000000, Voltage := 4170,
            States := Some [''running'' \<mapsto> True]\<rparr>) = 0
   \<and> Start (ConvertToCSVEntry (newEntry\<lparr>Timestamp := Date 2026 1 11 12 11 14 405000000,
            Voltage := 4170, States := Some [''running'' \<mapsto> True]\<rparr>)) = 0"
proof -
  have parsed:
    "ParseHistoryV2Line (Date 2026 6 1 0 0 0 0) ''01-11 12:11:14.405 075 c4002820 volt=4170 +running'' =
       Inr (newEntry\<lparr>Timestamp := Date 2026 1 11 12 11 14 405000000, Voltage := 4170,
              States := Some [''running'' \<mapsto> True]\<rparr>)"
    by (simp add: parse_eval)
  from ParseHistoryV2Line_TimestampMs [OF parsed] parsed show ?thesis
    by simp
qed

text \<open>
  C4, as amended. \<open>ConvertToCSVEntry\<close> maps every entry to the record with
  description "Battery state change", category "Battery State", source "system", start
  offset the entry's \<open>TimestampMs\<close>, and as value the comma-joined fragments, in the
  order status, health, volt, temp, of exactly the fields that pass the code's guards: a
  non-empty \<open>Status\<close>, a non-empty \<open>Health\<close>, a \<open>Voltage\<close> greater than 0, a
  \<open>Temperature\<close> greater than 0. A zero field has no fragment; neither has a negative
  one.
\<close>

theorem ConvertToCSVEntry_positive_fields:
  "ConvertToCSVEntry entry =
     \<lparr>Desc = ''Battery state change'', Type = ''Battery State'', Start = TimestampMs entry,
      Value = Join (positiveFragments entry) '','', Identifier = ''system''\<rparr>"
  by (simp add: ConvertToCSVEntry_def positiveFragments_def Let_def word_sless_alt)

text \<open>
  The claim as it was written asks for a fragment for every non-zero field. The remainder
  \<^verbatim>\<open>temp=-5\<close> parses to a temperature of -5 (tenths of a degree below zero), which is
  not zero, and the value string has no \<^verbatim>\<open>temp=\<close> fragment for it.
\<close>

theorem ConvertToCSVEntry_negative_temperature:
  "parseKeyValuePairsV2 newEntry ''temp=-5'' = Inr (newEntry\<lparr>Temperature := - 5\<rparr>)
   \<and> Value (ConvertToCSVEntry (newEntry\<lparr>Temperature := - 5\<rparr>)) = []
   \<and> Join (nonZeroFragments (newEntry\<lparr>Temperature := - 5\<rparr>)) '','' = ''temp=-5''"
  by (simp add: parse_eval ConvertToCSVEntry_def nonZeroFragments_def word_sless_alt showInt_def digitChar_def)

text \<open>The spec's example: a zero temperature and an empty health leave no fragment.\<close>

lemma ConvertToCSVEntry_example:
  "Value (ConvertToCSVEntry (newEntry\<lparr>Status := ''discharging'', Voltage := 4170\<rparr>)) =
     ''status=discharging,volt=4170''"
  by (simp add: ConvertToCSVEntry_def newEntry_def word_sless_alt showInt_def digitChar_def)

text \<open>
  C5. In the key/value pass, a token whose identifier is one of the six numeric ones
  (\<open>numericKind\<close> gives its width) and whose value \<open>ParseInt\<close> rejects for that
  width, and a token whose identifier is outside the vocabulary (\<open>recognized\<close>), leave
  every entry as it is and raise nothing; the pass over the whole remainder is then the
  pass over the tokens before it followed by the pass over the tokens after it.
\<close>

theorem parseKeyValuePairsV2_skips:
  assumes "FindAllStringSubmatch keyValuePattern line = before @ [m0, key, val] # after"
    and "(\<exists>bits. numericKind key = Some bits \<and> ParseInt val bits = None) \<or> \<not> recognized key"
  shows "(\<forall>e. keyValueStep e [m0, key, val] = Inr e)
     \<and> parseKeyValuePairsV2 entry line =
         andThen (forEach keyValueStep entry before) (\<lambda>e. forEach keyValueStep e after)"
proof -
  from assms(2) have skip: "keyValueStep e [m0, key, val] = Inr e" for e
    using keyValueStep_bad_number keyValueStep_unrecognized by blast
  have "parseKeyValuePairsV2 entry line =
      andThen (forEach keyValueStep entry before) (\<lambda>e. forEach keyValueStep e ([m0, key, val] # after))"
    by (simp add: parseKeyValuePairsV2_def assms(1) forEach_append)
  also have "\<dots> = andThen (forEach keyValueStep entry before) (\<lambda>e. forEach keyValueStep e after)"
    by (simp add: skip)
  finally show ?thesis using skip by blast
qed

theorem parseKeyValuePairsV2_skips_witness:
  "FindAllStringSubmatch keyValuePattern ''volt=4x temp=254 foo=1'' =
     [] @ [''volt=4x'', ''volt'', ''4x''] # [[''temp=254'', ''temp'', ''254''], [''foo=1'', ''foo'', ''1'']]
   \<and> numericKind ''volt'' = Some 32 \<and> ParseInt ''4x'' 32 = None \<and> \<not> recognized ''foo''
   \<and> (\<forall>e. keyValueStep e [''volt=4x'', ''volt'', ''4x''] = Inr e)
   \<and> (\<forall>e. keyValueStep e [''foo=1'', ''foo'', ''1''] = Inr e)
   \<and> parseKeyValuePairsV2 newEntry ''volt=4x temp=254 foo=1'' = Inr (newEntry\<lparr>Temperature := 254\<rparr>)"
proof -
  have found: "FindAllStringSubmatch keyValuePattern ''volt=4x temp=254 foo=1'' =
     [] @ [''volt=4x'', ''volt'', ''4x''] # [[''temp=254'', ''temp'', ''254''], [''foo=1'', ''foo'', ''1'']]"
    by (simp add: rx_eval)
  have found': "FindAllStringSubmatch keyValuePattern ''volt=4x temp=254 foo=1'' =
     [[''volt=4x'', ''volt'', ''4x''], [''temp=254'', ''temp'', ''254'']] @ [''foo=1'', ''foo'', ''1''] # []"
    by (simp add: rx_eval)
  have bad: "numericKind ''volt'' = Some 32 \<and> ParseInt ''4x'' 32 = None"
    by (simp add: numericKind_def ParseInt_def isDigit_def inRange_def)
  have unknown: "\<not> recognized ''foo''"
    by (simp add: recognized_def)
  from bad have h1: "(\<exists>bits. numericKind ''volt'' = Some bits \<and> ParseInt ''4x'' bits = None)
      \<or> \<not> recognized ''volt''"
    by blast
  from unknown have h2: "(\<exists>bits. numericKind ''foo'' = Some bits \<and> ParseInt ''1'' bits = None)
      \<or> \<not> recognized ''foo''"
    by blast
  note volt = parseKeyValuePairsV2_skips [OF found h1, of newEntry]
  note foo = parseKeyValuePairsV2_skips [OF found' h2, of newEntry]
  have "parseKeyValuePairsV2 newEntry ''volt=4x temp=254 foo=1'' = Inr (newEntry\<lparr>Temperature := 254\<rparr>)"
    using volt by (simp add: parse_eval)
  with found bad unknown volt foo show ?thesis
    by blast
qed

text \<open>
  C6. The accepted toggles of a remainder are the matches of the toggle pattern that the
  rules of the spec accept, where they stand in the remainder (\<open>boundedToggles\<close>); for
  a state named by several of them the value of the last one is to be stored. In the first
  remainder below \<open>running\<close> is switched on and, at the end, switched off, and the pass
  stores it as switched on: the text of the last toggle occurs earlier, inside the quoted
  name, and \<^verbatim>\<open>strings.Index\<close> looks at the characters there, so the toggle is dropped.
  In the second remainder \<open>a\<close> is switched on and off and a third match, after the
  letter \<^verbatim>\<open>x\<close> and not accepted, is written all the same, so \<open>a\<close> is stored as
  switched on. The remainder the claim names is stored as the claim says.
\<close>

theorem last_bounded_toggle_not_stored:
  \<open>boundedToggles ''+running +wake_lock=u0a1:"job-running" -running'' =
       [(''running'', True), (''running'', False)]
   \<and> parseStateTransitionsV2 newEntry ''+running +wake_lock=u0a1:"job-running" -running'' =
       Inr (newEntry\<lparr>States := Some [''running'' \<mapsto> True]\<rparr>)
   \<and> boundedToggles ''+a -a x+a'' = [(''a'', True), (''a'', False)]
   \<and> parseStateTransitionsV2 newEntry ''+a -a x+a'' = Inr (newEntry\<lparr>States := Some [''a'' \<mapsto> True]\<rparr>)
   \<and> boundedToggles ''+running +wifi -running'' =
       [(''running'', True), (''wifi'', True), (''running'', False)]
   \<and> parseStateTransitionsV2 newEntry ''+running +wifi -running'' =
       Inr (newEntry\<lparr>States := Some [''running'' \<mapsto> True, ''wifi'' \<mapsto> True, ''running'' \<mapsto> False]\<rparr>)\<close>
  by (simp add: parse_eval bounded_eval)

text \<open>
  What the pass does store, for every remainder: the value of the last toggle that its
  own test lets through (\<open>acceptedToggles\<close>, which looks at the first place where the
  matched text occurs).
\<close>

lemma parseStateTransitionsV2_last_write:
  assumes "States entry = Some m"
    and "acceptedToggles line = before @ (name, active) # after"
    and "name \<notin> fst ` set after"
  shows "\<exists>entry' m'. parseStateTransitionsV2 entry line = Inr entry' \<and> States entry' = Some m'
     \<and> m' name = Some active"
proof -
  let ?ws = "map (\<lambda>(n, b). PutState n b) (acceptedToggles line)"
  have nb: "\<not> list_ex (blocked entry) ?ws"
    using assms(1) by (auto simp: list_ex_iff)
  then have run: "parseStateTransitionsV2 entry line = Inr (foldl applyWrite entry ?ws)"
    by (simp add: parseStateTransitionsV2_writes runWrites_def)
  have "States (foldl applyWrite entry ?ws) = Some (foldl putKey m (acceptedToggles line))"
    by (simp only: States_foldl_PutState assms(1) option.map)
  then have "States (foldl applyWrite entry ?ws) =
      Some (foldl putKey m (before @ (name, active) # after))"
    by (simp only: assms(2))
  moreover have "foldl putKey m (before @ (name, active) # after) name = Some active"
    by (simp add: foldl_putKey_other [OF assms(3)] putKey_pair)
  ultimately show ?thesis using run by blast
qed

lemma parseStateTransitionsV2_last_write_example:
  "States newEntry = Some Map.empty
   \<and> acceptedToggles ''+running +wifi -running'' =
       [(''running'', True), (''wifi'', True)] @ (''running'', False) # []
   \<and> ''running'' \<notin> fst ` set ([] :: (string \<times> bool) list)
   \<and> (\<exists>entry' m'. parseStateTransitionsV2 newEntry ''+running +wifi -running'' = Inr entry'
         \<and> States entry' = Some m' \<and> m' ''running'' = Some False \<and> m' ''wifi'' = Some True)"
proof -
  have made: "States newEntry = Some Map.empty"
    by (simp add: newEntry_def)
  have toggles: "acceptedToggles ''+running +wifi -running'' =
       [(''running'', True), (''wifi'', True)] @ (''running'', False) # []"
    by (simp add: acceptedToggles_def acceptedToggle_def rx_eval Contains_def Index_def Let_def)
  have last: "''running'' \<notin> fst ` set ([] :: (string \<times> bool) list)"
    by simp
  from parseStateTransitionsV2_last_write [OF made toggles last] obtain entry' m' where
    run: "parseStateTransitionsV2 newEntry ''+running +wifi -running'' = Inr entry'"
      "States entry' = Some m'" "m' ''running'' = Some False"
    by blast
  have "parseStateTransitionsV2 newEntry ''+running +wifi -running'' =
      Inr (newEntry\<lparr>States := Some [''running'' \<mapsto> True, ''wifi'' \<mapsto> True, ''running'' \<mapsto> False]\<rparr>)"
    by (simp add: parse_eval)
  with run(1, 2) have "m' ''wifi'' = Some True"
    by auto
  with made toggles last run show ?thesis
    by blast
qed

text \<open>
  Where every match of the toggle pattern is the first occurrence of its text in the
  remainder, the pass stores the value of the last accepted toggle.
\<close>

lemma last_toggle_wins_first_occurrences:
  assumes "States entry = Some m"
    and "\<And>i match. (i, match) \<in> set (matchesAt stateTransitionPattern True 0 0 line)
           \<Longrightarrow> Index line (hd match) = int i"
    and "boundedToggles line = before @ (name, active) # after"
    and "name \<notin> fst ` set after"
  shows "\<exists>entry' m'. parseStateTransitionsV2 entry line = Inr entry' \<and> States entry' = Some m'
     \<and> m' name = Some active"
proof -
  from acceptedToggles_bounded [of line] assms(2)
  have "acceptedToggles line = boundedToggles line" by blast
  with assms(3) have "acceptedToggles line = before @ (name, active) # after" by simp
  from parseStateTransitionsV2_last_write [OF assms(1) this assms(4)] show ?thesis .
qed

text \<open>
  C8. The three extraction passes can run in any order: for every entry and every
  remainder the six orders give the same result (the same entry, or the same panic when
  the entry holds a nil map that a pass must write). Running the three passes once more
  on the entry they returned, with the same remainder, returns that entry unchanged.
\<close>

theorem passes_order_independent:
  "(let S = parseStateTransitionsV2; K = parseKeyValuePairsV2; W = parseWakeReasonsV2;
        run = (\<lambda>passes. runPasses passes remainder entry)
    in run [S, W, K] = run [S, K, W] \<and> run [K, S, W] = run [S, K, W]
       \<and> run [K, W, S] = run [S, K, W] \<and> run [W, S, K] = run [S, K, W]
       \<and> run [W, K, S] = run [S, K, W]
       \<and> andThen (run [S, K, W]) (runPasses [S, K, W] remainder) = run [S, K, W])"
proof -
  let ?s = "map (\<lambda>(n, b). PutState n b) (acceptedToggles remainder)"
  let ?k = "keyValueWrites remainder"
  let ?w = "map PutWakeReason (wakeReasons remainder)"
  have sk: "wpass x \<noteq> wpass y" if "x \<in> set ?s" "y \<in> set ?k" for x y
    using wpass_stateWrites [OF that(1)] wpass_keyValueWrites [OF that(2)] by simp
  have sw: "wpass x \<noteq> wpass y" if "x \<in> set ?s" "y \<in> set ?w" for x y
    using wpass_stateWrites [OF that(1)] wpass_wakeWrites [OF that(2)] by simp
  have kw: "wpass x \<noteq> wpass y" if "x \<in> set ?k" "y \<in> set ?w" for x y
    using wpass_keyValueWrites [OF that(1)] wpass_wakeWrites [OF that(2)] by simp
  have 1: "runWrites entry (?s @ ?w @ ?k) = runWrites entry (?s @ ?k @ ?w)"
    by (rule swap_last [symmetric]) (rule kw)
  have 2: "runWrites entry (?k @ ?s @ ?w) = runWrites entry (?s @ ?k @ ?w)"
    by (rule swap_first [symmetric]) (rule sk)
  have 3: "runWrites entry (?k @ ?w @ ?s) = runWrites entry (?k @ ?s @ ?w)"
    by (rule swap_last [symmetric]) (rule sw)
  have 4: "runWrites entry (?w @ ?s @ ?k) = runWrites entry (?s @ ?w @ ?k)"
    by (rule swap_first [symmetric]) (rule sw)
  have 5: "runWrites entry (?w @ ?k @ ?s) = runWrites entry (?k @ ?w @ ?s)"
    by (rule swap_first [symmetric]) (rule kw)
  have 6: "andThen (runWrites entry (?s @ ?k @ ?w)) (\<lambda>e. runWrites e (?s @ ?k @ ?w))
      = runWrites entry (?s @ ?k @ ?w)"
    by (rule runWrites_twice)
  have run: "runPasses [parseStateTransitionsV2, parseKeyValuePairsV2, parseWakeReasonsV2] remainder
      = (\<lambda>e. runWrites e (?s @ ?k @ ?w))"
    by (rule ext) (simp only: runPasses_writes)
  show ?thesis
    unfolding Let_def runPasses_writes run
    using 1 2 3 4 5 6 by simp
qed

text \<open>
  C2. \<open>format2Line\<close> is the Format-2 grammar: month-day, time of day with
  milliseconds, a decimal sequence number, a bitmask of hexadecimal digits (the pattern
  takes the lower-case ones) and the rest of the line without a newline, each separated
  from the next by one or more white-space characters. \<open>ParseHistoryV2Line\<close> returns
  the error \<open>InvalidFormat\<close>, and so no entry, exactly when the trimmed line is not of
  that form, the empty line included; on every line whose trimmed form is of that form it
  returns an entry, whatever the month-day and the time are, and the entry's three maps
  are made (not nil).
\<close>

theorem ParseHistoryV2Line_fails_iff:
  "(if format2Line (TrimSpace line)
    then \<exists>entry. ParseHistoryV2Line now line = Inr entry \<and> States entry \<noteq> None
           \<and> WakeReasons entry \<noteq> None \<and> RailCharges entry \<noteq> None
    else ParseHistoryV2Line now line = Inl InvalidFormat)
   \<and> ParseHistoryV2Line now [] = Inl InvalidFormat"
proof -
  have empty: "ParseHistoryV2Line now [] = Inl InvalidFormat"
    by (simp add: parse_eval)
  show ?thesis
  proof (cases "format2Line (TrimSpace line)")
    case False
    then have "FindStringSubmatch historyLinePatternV2 (TrimSpace line) = None"
      by (simp add: FindStringSubmatch_format2Line)
    with False empty show ?thesis
      by (simp add: ParseHistoryV2Line_eq)
  next
    case True
    then obtain m where "FindStringSubmatch historyLinePatternV2 (TrimSpace line) = Some m"
      using FindStringSubmatch_format2Line [of "TrimSpace line"] by auto
    then have "ParseHistoryV2Line now line =
        Inr (foldl applyWrite (newEntry\<lparr>Timestamp := lineTimestamp now m\<rparr>) (lineWrites (m ! 5)))"
      by (simp add: ParseHistoryV2Line_eq)
    moreover have "States (foldl applyWrite (newEntry\<lparr>Timestamp := lineTimestamp now m\<rparr>) (lineWrites (m ! 5))) \<noteq> None"
      by (simp add: States_foldl_None newEntry_def)
    moreover have "WakeReasons (foldl applyWrite (newEntry\<lparr>Timestamp := lineTimestamp now m\<rparr>) (lineWrites (m ! 5))) \<noteq> None"
      by (simp add: WakeReasons_foldl_None newEntry_def)
    moreover have "RailCharges (foldl applyWrite (newEntry\<lparr>Timestamp := lineTimestamp now m\<rparr>) (lineWrites (m ! 5))) \<noteq> None"
      by (simp add: RailCharges_foldl_None newEntry_def)
    ultimately show ?thesis using True empty by simp
  qed
qed

theorem ParseHistoryV2Line_fails_iff_witness:
  "format2Line (TrimSpace ''  13-45 25:61:61.000 1 a x '')
   \<and> time_Parse ''2026-13-45 25:61:61.000'' = None
   \<and> (\<exists>entry. ParseHistoryV2Line (Date 2026 6 1 0 0 0 0) ''  13-45 25:61:61.000 1 a x '' = Inr entry
         \<and> States entry \<noteq> None \<and> WakeReasons entry \<noteq> None \<and> RailCharges entry \<noteq> None)
   \<and> \<not> format2Line (TrimSpace ''invalid line format'')
   \<and> ParseHistoryV2Line (Date 2026 6 1 0 0 0 0) ''invalid line format'' = Inl InvalidFormat"
proof -
  have good: "format2Line (TrimSpace ''  13-45 25:61:61.000 1 a x '')"
    unfolding MatchString_format2Line [symmetric]
    by (simp add: rx_eval TrimSpace_def spaceRunes_def)
  have bad: "\<not> format2Line (TrimSpace ''invalid line format'')"
    unfolding MatchString_format2Line [symmetric]
    by (simp add: rx_eval TrimSpace_def spaceRunes_def)
  have date: "time_Parse ''2026-13-45 25:61:61.000'' = None"
    by (simp add: time_Parse_def isDigit_def digitVal_def inRange_def)
  from ParseHistoryV2Line_fails_iff [of "''  13-45 25:61:61.000 1 a x ''" "Date 2026 6 1 0 0 0 0"] good
  have ok: "\<exists>entry. ParseHistoryV2Line (Date 2026 6 1 0 0 0 0) ''  13-45 25:61:61.000 1 a x '' = Inr entry
         \<and> States entry \<noteq> None \<and> WakeReasons entry \<noteq> None \<and> RailCharges entry \<noteq> None"
    by simp
  from ParseHistoryV2Line_fails_iff [of "''invalid line format''" "Date 2026 6 1 0 0 0 0"] bad
  have "ParseHistoryV2Line (Date 2026 6 1 0 0 0 0) ''invalid line format'' = Inl InvalidFormat"
    by simp
  with good bad date ok show ?thesis by blast
qed

text \<open>
  C3. \<open>DetectHistoryFormatVersion\<close> goes through the lines of the document in order
  and stops at the first one that is decisive: it returns 1 when the trimmed line starts
  with the legacy marker \<^verbatim>\<open>9,h,\<close>, and 2 when the line is of the Format-2 form (the
  line as it stands in the document); it returns 1 when no line is decisive, so for the
  empty document. In particular the result is 1 whenever a legacy line comes before every
  line of the Format-2 form.
\<close>

theorem DetectHistoryFormatVersion_first_decisive:
  "DetectHistoryFormatVersion text =
     (case find (\<lambda>l. legacyLine l \<or> format2Line l) (Split text (CHR 0x0A)) of
        None \<Rightarrow> 1 | Some l \<Rightarrow> if legacyLine l then 1 else 2)
   \<and> DetectHistoryFormatVersion [] = 1
   \<and> (\<forall>before l after.
        Split text (CHR 0x0A) = before @ l # after \<and> legacyLine l
        \<and> list_all (\<lambda>x. \<not> format2Line x) before
        \<longrightarrow> DetectHistoryFormatVersion text = 1)"
proof -
  have "DetectHistoryFormatVersion [] = 1"
    by (simp add: DetectHistoryFormatVersion_def HasPrefix_def TrimSpace_def spaceRunes_def rx_eval)
  then show ?thesis
    by (auto simp: DetectHistoryFormatVersion_def detectLines_find [symmetric] detectLines_legacy_first)
qed

theorem DetectHistoryFormatVersion_first_decisive_witness:
  "Split (''9,h,0,Bl=52'' @ [CHR 0x0A] @ ''01-11 12:11:14.405 075 c4002820 status=discharging'') (CHR 0x0A)
     = [] @ ''9,h,0,Bl=52'' # [''01-11 12:11:14.405 075 c4002820 status=discharging'']
   \<and> legacyLine ''9,h,0,Bl=52''
   \<and> list_all (\<lambda>x. \<not> format2Line x) []
   \<and> format2Line ''01-11 12:11:14.405 075 c4002820 status=discharging''
   \<and> DetectHistoryFormatVersion
        (''9,h,0,Bl=52'' @ [CHR 0x0A] @ ''01-11 12:11:14.405 075 c4002820 status=discharging'') = 1
   \<and> DetectHistoryFormatVersion ''01-11 12:11:14.405 075 c4002820 status=discharging'' = 2"
proof -
  let ?text = "''9,h,0,Bl=52'' @ [CHR 0x0A] @ ''01-11 12:11:14.405 075 c4002820 status=discharging''"
  have split: "Split ?text (CHR 0x0A)
     = [] @ ''9,h,0,Bl=52'' # [''01-11 12:11:14.405 075 c4002820 status=discharging'']"
    by simp
  have legacy: "legacyLine ''9,h,0,Bl=52''"
    by (simp add: legacyLine_def HasPrefix_def TrimSpace_def spaceRunes_def)
  have none: "list_all (\<lambda>x. \<not> format2Line x) []"
    by simp
  have "MatchString historyLinePatternV2 ''01-11 12:11:14.405 075 c4002820 status=discharging''"
    by (simp add: rx_eval)
  then have f2: "format2Line ''01-11 12:11:14.405 075 c4002820 status=discharging''"
    by (simp add: MatchString_format2Line)
  have two: "DetectHistoryFormatVersion ''01-11 12:11:14.405 075 c4002820 status=discharging'' = 2"
    by (simp add: DetectHistoryFormatVersion_def HasPrefix_def TrimSpace_def spaceRunes_def rx_eval)
  from DetectHistoryFormatVersion_first_decisive [of ?text] split legacy none
  have "DetectHistoryFormatVersion ?text = 1"
    by blast
  with split legacy none f2 two show ?thesis by blast
qed

text \<open>
  The detector applies the pattern to the line as it stands, the parser to the trimmed
  line: an indented Format-2 line parses, and does not decide the version.
\<close>

lemma DetectHistoryFormatVersion_indented_line:
  "DetectHistoryFormatVersion '' 01-11 12:11:14.405 075 c4002820 volt=4170'' = 1
   \<and> ParseHistoryV2Line now '' 01-11 12:11:14.405 075 c4002820 volt=4170'' =
       Inr (newEntry\<lparr>Timestamp := Date 2026 1 11 12 11 14 405000000, Voltage := 4170\<rparr>)"
  by (simp add: DetectHistoryFormatVersion_def HasPrefix_def parse_eval)

text \<open>
  C7. \<open>wakeTokens\<close> reads the remainder from left to right: where the text is
  \<^verbatim>\<open>wake_reason=\<close>, one or more digits, a colon and a quoted non-empty text, it
  yields the text between the quotes and goes on after the closing quote; elsewhere it
  moves on by one character. On an entry whose \<open>WakeReasons\<close> map was made, the pass stores
  \<open>True\<close> under exactly these texts and keeps the other keys: a text that occurs twice
  is one key.
\<close>

theorem parseWakeReasonsV2_tokens:
  assumes "WakeReasons entry = Some reasons"
  shows "parseWakeReasonsV2 entry line =
     Inr (entry\<lparr>WakeReasons := Some (\<lambda>r. if r \<in> set (wakeTokens line) then Some True else reasons r)\<rparr>)"
proof -
  have "\<not> list_ex (blocked entry) (map PutWakeReason (wakeTokens line))"
    using assms by (auto simp: list_ex_iff)
  then show ?thesis
    by (simp add: parseWakeReasonsV2_writes wakeReasons_tokens runWrites_def foldl_PutWakeReason assms)
qed

theorem parseWakeReasonsV2_tokens_witness:
  \<open>WakeReasons newEntry = Some Map.empty
   \<and> wakeTokens ''+running wake_reason=0:"100 wlan_wake" wake_reason=12:"100 wlan_wake"'' =
       [''100 wlan_wake'', ''100 wlan_wake'']
   \<and> parseWakeReasonsV2 newEntry ''+running wake_reason=0:"100 wlan_wake" wake_reason=12:"100 wlan_wake"'' =
       Inr (newEntry\<lparr>WakeReasons := Some [''100 wlan_wake'' \<mapsto> True]\<rparr>)\<close>
proof -
  have made: \<open>WakeReasons newEntry = Some Map.empty\<close>
    by (simp add: newEntry_def)
  have tokens: \<open>wakeTokens ''+running wake_reason=0:"100 wlan_wake" wake_reason=12:"100 wlan_wake"'' =
       [''100 wlan_wake'', ''100 wlan_wake'']\<close>
    by (simp add: wakeTokens_def wakeTokenAt_def isDigit_def inRange_def notQuote_def)
  have \<open>(\<lambda>r. if r \<in> set [''100 wlan_wake'', ''100 wlan_wake''] then Some True else Map.empty r) =
      [''100 wlan_wake'' \<mapsto> True]\<close>
    by (rule ext) simp
  with parseWakeReasonsV2_tokens [OF made,
      of \<open>''+running wake_reason=0:"100 wlan_wake" wake_reason=12:"100 wlan_wake"''\<close>] tokens made
  show ?thesis by simp
qed

text \<open>
  C9, as amended. \<open>ParseHistoryV2Line\<close> is a function of the line and of the clock: two
  invocations, at the clock readings \<open>now1\<close> and \<open>now2\<close>, return the same failure, or
  entries that agree in every field but \<open>Timestamp\<close>. The timestamp is the line's own
  (\<open>lineStamp\<close>: year 2026, the month-day and the time of the line) when that is a valid
  calendar timestamp, the same in both invocations; otherwise each invocation stores its
  own clock reading.
\<close>

theorem ParseHistoryV2Line_clock:
  "ParseHistoryV2Line now2 line =
     map_sum id (\<lambda>entry. entry\<lparr>Timestamp := (case lineStamp line of Some ts \<Rightarrow> ts | None \<Rightarrow> now2)\<rparr>)
       (ParseHistoryV2Line now1 line)"
proof (cases "FindStringSubmatch historyLinePatternV2 (TrimSpace line)")
  case None
  then show ?thesis by (simp add: ParseHistoryV2Line_eq)
next
  case (Some m)
  have stamp: "lineTimestamp now2 m = (case lineStamp line of Some ts \<Rightarrow> ts | None \<Rightarrow> now2)"
    by (simp add: lineTimestamp_def lineStamp_def Some)
  show ?thesis
    by (simp add: ParseHistoryV2Line_eq Some foldl_applyWrite_Timestamp stamp)
qed

text \<open>
  The claim as it was written: two invocations return equal results, the timestamp
  included. Month 13 is no calendar month; the timestamp is the clock's, and two
  invocations at different times differ.
\<close>

theorem ParseHistoryV2Line_clock_counterexample:
  "ParseHistoryV2Line (Date 2026 6 1 0 0 0 0) ''13-45 12:11:14.405 075 c4002820 volt=4170'' =
     Inr (newEntry\<lparr>Timestamp := Date 2026 6 1 0 0 0 0, Voltage := 4170\<rparr>)
   \<and> ParseHistoryV2Line (Date 2026 6 1 0 0 0 1) ''13-45 12:11:14.405 075 c4002820 volt=4170'' =
     Inr (newEntry\<lparr>Timestamp := Date 2026 6 1 0 0 0 1, Voltage := 4170\<rparr>)
   \<and> ParseHistoryV2Line (Date 2026 6 1 0 0 0 0) ''13-45 12:11:14.405 075 c4002820 volt=4170'' \<noteq>
     ParseHistoryV2Line (Date 2026 6 1 0 0 0 1) ''13-45 12:11:14.405 075 c4002820 volt=4170''"
proof -
  have a: "ParseHistoryV2Line (Date 2026 6 1 0 0 0 0) ''13-45 12:11:14.405 075 c4002820 volt=4170'' =
     Inr (newEntry\<lparr>Timestamp := Date 2026 6 1 0 0 0 0, Voltage := 4170\<rparr>)"
    by (simp add: parse_eval)
  have b: "ParseHistoryV2Line (Date 2026 6 1 0 0 0 1) ''13-45 12:11:14.405 075 c4002820 volt=4170'' =
     Inr (newEntry\<lparr>Timestamp := Date 2026 6 1 0 0 0 1, Voltage := 4170\<rparr>)"
    by (simp add: parse_eval)
  have "Timestamp (newEntry\<lparr>Timestamp := Date 2026 6 1 0 0 0 0, Voltage := 4170\<rparr>) \<noteq>
        Timestamp (newEntry\<lparr>Timestamp := Date 2026 6 1 0 0 0 1, Voltage := 4170\<rparr>)"
    by simp
  then have "newEntry\<lparr>Timestamp := Date 2026 6 1 0 0 0 0, Voltage := 4170\<rparr> \<noteq>
        newEntry\<lparr>Timestamp := Date 2026 6 1 0 0 0 1, Voltage := 4170\<rparr>"
    by metis
  with a b show ?thesis by simp
qed

text \<open>
  C1. The toggle pass looks for the characters around a match at the first place where
  the matched text occurs in the remainder (\<^verbatim>\<open>strings.Index\<close>), not at the match. In
  the remainder below the last match is \<^verbatim>\<open>-running\<close>, after a space and at the end of
  the remainder; the same text occurs earlier, inside the quoted name at offset 20 after
  the letter \<^verbatim>\<open>b\<close>, so the toggle is dropped and \<open>States\<close> stays empty. Alone, the
  same toggle is recorded.
\<close>

theorem toggle_after_same_text:
  \<open>FindAllStringSubmatch stateTransitionPattern ''+wake_lock=u0a1:"job-running" -running'' =
     [[''+wake_lock'', ''+'', ''wake_lock''], [''-running'', ''-'', ''running''],
      [''-running'', ''-'', ''running'']]
   \<and> Index ''+wake_lock=u0a1:"job-running" -running'' ''-running'' = 20
   \<and> ''+wake_lock=u0a1:"job-running" -running'' ! 19 = CHR ''b''
   \<and> drop 29 ''+wake_lock=u0a1:"job-running" -running'' = '' -running''
   \<and> acceptedToggles ''+wake_lock=u0a1:"job-running" -running'' = []
   \<and> parseStateTransitionsV2 newEntry ''+wake_lock=u0a1:"job-running" -running'' = Inr newEntry
   \<and> parseStateTransitionsV2 newEntry ''-running'' = Inr (newEntry\<lparr>States := Some [''running'' \<mapsto> False]\<rparr>)\<close>
  by (simp add: parse_eval acceptedToggles_def acceptedToggle_def)

text \<open>
  The same search lets a toggle through that is not bounded: in the remainder below the
  third match \<^verbatim>\<open>+a\<close> follows the letter \<^verbatim>\<open>x\<close>, its text occurs first at offset 0,
  and the state \<open>a\<close>, switched off by the second toggle, is stored as switched on.
\<close>

lemma toggle_inside_word:
  "FindAllStringSubmatch stateTransitionPattern ''+a -a x+a'' =
     [[''+a'', ''+'', ''a''], [''-a'', ''-'', ''a''], [''+a'', ''+'', ''a'']]
   \<and> ''+a -a x+a'' ! 6 = CHR ''x''
   \<and> Index ''+a -a x+a'' ''+a'' = 0
   \<and> acceptedToggles ''+a -a x+a'' = [(''a'', True), (''a'', False), (''a'', True)]
   \<and> parseStateTransitionsV2 newEntry ''+a -a x+a'' = Inr (newEntry\<lparr>States := Some [''a'' \<mapsto> True]\<rparr>)
   \<and> parseStateTransitionsV2 newEntry ''+a -a'' = Inr (newEntry\<lparr>States := Some [''a'' \<mapsto> False]\<rparr>)"
  by (simp add: parse_eval acceptedToggles_def acceptedToggle_def)

text \<open>The two remainders the claim names record no toggle.\<close>

lemma toggle_examples:
  \<open>parseStateTransitionsV2 newEntry ''+wifi_radio_extra=1'' = Inr newEntry
   \<and> parseStateTransitionsV2 newEntry ''+wake_lock=1000:"*alarm*:TIME_TICK"'' = Inr newEntry
   \<and> parseKeyValuePairsV2 newEntry ''+wifi_radio_extra=1'' = Inr newEntry\<close>
  by (simp add: parse_eval)

end
